theory Spec2Isabelle
  imports Main "HOL-Library.Word"
begin

section \<open>xarmour: splitting armoured text and running a command on each block\<close>

text \<open>
  The development embeds \<^verbatim>\<open>main\<close> of \<^verbatim>\<open>xarmour.c\<close>: the line reader
  (\<^verbatim>\<open>fgets\<close> into a buffer of \<^verbatim>\<open>MAX_LINE\<close> bytes), the two marker matchers
  (\<^verbatim>\<open>sscanf\<close> with the formats \<^verbatim>\<open>begin\<close> and \<^verbatim>\<open>end\<close>), and the loop that
  spawns one child per block, writes the block to it, waits for it and aggregates the
  statuses. The operating system is a parameter: what \<^verbatim>\<open>pipe\<close>, \<^verbatim>\<open>fork\<close> and
  \<^verbatim>\<open>waitpid\<close> answer for the block with a given index, and what each \<^verbatim>\<open>write\<close>
  on a pipe does. What the process does is recorded as a list of events, with the way
  the process ends: \<^verbatim>\<open>main\<close> returns a status, or a signal kills the process.
\<close>

subsection \<open>Constants\<close>

definition MAX_LINE :: nat where
  "MAX_LINE = 1024"

definition EXIT_SUCCESS :: int where
  "EXIT_SUCCESS = 0"

definition EXIT_FAILURE :: int where
  "EXIT_FAILURE = 1"

definition EX_OSERR :: int where
  "EX_OSERR = 71"

definition EOF :: int where
  "EOF = - 1"

definition SIGPIPE :: nat where
  "SIGPIPE = 13"

subsection \<open>C strings\<close>

definition NUL :: char where
  "NUL = CHR 0x00"

definition newline :: char where
  "newline = CHR 0x0A"

text \<open>A buffer read as a C string ends before its first NUL byte.\<close>

definition cstr :: "string \<Rightarrow> string" where
  "cstr buf = takeWhile (\<lambda>c. c \<noteq> NUL) buf"

definition strlen :: "string \<Rightarrow> nat" where
  "strlen buf = length (cstr buf)"

fun strcmp :: "string \<Rightarrow> string \<Rightarrow> int" where
  "strcmp [] [] = 0"
| "strcmp [] (y # ys) = - 1"
| "strcmp (x # xs) [] = 1"
| "strcmp (x # xs) (y # ys) =
     (if x = y then strcmp xs ys
      else if (of_char x :: nat) < of_char y then - 1 else 1)"

text \<open>The white-space characters of the C locale.\<close>

definition isspace :: "char \<Rightarrow> bool" where
  "isspace c = (c = CHR '' '' \<or> c = CHR 0x09 \<or> c = CHR 0x0A \<or> c = CHR 0x0B
                \<or> c = CHR 0x0C \<or> c = CHR 0x0D)"

subsection \<open>Reading a line: \<^verbatim>\<open>fgets(buffer, sizeof(buffer), stdin)\<close>\<close>

text \<open>
  \<^verbatim>\<open>fgets\<close> stores at most \<open>n - 1\<close> bytes; it stops after a newline, which it
  stores, and at the end of the stream. It answers \<^verbatim>\<open>NULL\<close> (here \<open>None\<close>) when no
  byte could be read. The bytes it did not take stay in the stream.
\<close>

definition fgets :: "nat \<Rightarrow> string \<Rightarrow> (string \<times> string) option" where
  "fgets n stdin =
     (if stdin = [] then None
      else
        let window = take (n - 1) stdin;
            line = takeWhile (\<lambda>c. c \<noteq> newline) window;
            buffer = (if length line < length window then line @ [newline] else line)
        in Some (buffer, drop (length buffer) stdin))"

subsection \<open>Matching a marker: \<^verbatim>\<open>sscanf\<close>\<close>

text \<open>
  The directives the two formats use: an ordinary character, which must be the next
  input character; white space, which skips any run of white space, also an empty one;
  and \<^verbatim>\<open>%N[^c]\<close>, which stores the longest run of at most \<open>N\<close> characters other than
  \<open>c\<close> and fails on an empty run.
\<close>

datatype directive = Lit char | WS | NotSet nat char

text \<open>
  \<^verbatim>\<open>sscanf\<close> answers the number of conversions stored, or \<^verbatim>\<open>EOF\<close> when the input
  ends before the first conversion; the second component is what was stored.
\<close>

fun sscanf :: "string \<Rightarrow> directive list \<Rightarrow> string list \<Rightarrow> int \<times> string list" where
  "sscanf s [] out = (int (length out), out)"
| "sscanf s (Lit c # fmt) out =
     (case s of
        [] \<Rightarrow> (if out = [] then EOF else int (length out), out)
      | x # xs \<Rightarrow> if x = c then sscanf xs fmt out else (int (length out), out))"
| "sscanf s (WS # fmt) out = sscanf (dropWhile isspace s) fmt out"
| "sscanf s (NotSet w c # fmt) out =
     (let m = take w (takeWhile (\<lambda>x. x \<noteq> c) s)
      in if m = [] then (if s = [] \<and> out = [] then EOF else int (length out), out)
         else sscanf (drop (length m) s) fmt (out @ [m]))"

text \<open>\<^verbatim>\<open>"-----BEGIN %1000[^-]-----"\<close> and \<^verbatim>\<open>"-----END %1000[^-]-----"\<close>.\<close>

definition begin_fmt :: "directive list" where
  "begin_fmt = map Lit ''-----BEGIN'' @ [WS, NotSet 1000 CHR ''-''] @ map Lit ''-----''"

definition end_fmt :: "directive list" where
  "end_fmt = map Lit ''-----END'' @ [WS, NotSet 1000 CHR ''-''] @ map Lit ''-----''"

text \<open>
  \<^verbatim>\<open>sscanf(buffer, fmt, label) == 1\<close>: the label stored when exactly one conversion
  succeeded, \<open>None\<close> otherwise.
\<close>

definition scan_label :: "directive list \<Rightarrow> string \<Rightarrow> string option" where
  "scan_label fmt buffer =
     (case sscanf (cstr buffer) fmt [] of
        (n, out) \<Rightarrow> (case out of [label] \<Rightarrow> if n = 1 then Some label else None | _ \<Rightarrow> None))"

subsection \<open>Printing a \<^verbatim>\<open>long\<close>: \<^verbatim>\<open>snprintf(buf, sizeof(buf), "%ld", n)\<close>\<close>

definition digit_char :: "nat \<Rightarrow> char" where
  "digit_char d = char_of (48 + d)"

fun digits :: "nat \<Rightarrow> string" where
  "digits n = (if n < 10 then [digit_char n] else digits (n div 10) @ [digit_char (n mod 10)])"

declare digits.simps [simp del]

definition ld :: "int \<Rightarrow> string" where
  "ld n = (if n < 0 then CHR ''-'' # digits (nat (- n)) else digits (nat n))"

subsection \<open>The operating system\<close>

text \<open>
  The status \<^verbatim>\<open>waitpid\<close> stores, as the macros of \<^verbatim>\<open>sys/wait.h\<close> read it: the child
  exited with an 8-bit code, or a signal killed it, or neither.
\<close>

datatype wstatus = Exited "8 word" | Signaled nat | Other

fun WIFEXITED :: "wstatus \<Rightarrow> bool" where
  "WIFEXITED (Exited c) = True"
| "WIFEXITED _ = False"

fun WEXITSTATUS :: "wstatus \<Rightarrow> int" where
  "WEXITSTATUS (Exited c) = uint c"
| "WEXITSTATUS _ = 0"

fun WIFSIGNALED :: "wstatus \<Rightarrow> bool" where
  "WIFSIGNALED (Signaled n) = True"
| "WIFSIGNALED _ = False"

fun WTERMSIG :: "wstatus \<Rightarrow> int" where
  "WTERMSIG (Signaled n) = int n"
| "WTERMSIG _ = 0"

text \<open>
  How the \<^verbatim>\<open>do ... while (w != f)\<close> loop around \<^verbatim>\<open>waitpid\<close> ends: with
  \<open>w = -1\<close> and an error other than \<^verbatim>\<open>EINTR\<close>, or with \<open>w = f\<close> and a status.
\<close>

datatype wait_ret = WaitErr | Reaped wstatus

text \<open>
  What a \<^verbatim>\<open>write\<close> on the pipe does. It returns, with a count (\<open>Written\<close>) or with
  a negative value (\<open>Failed\<close>), which \<^verbatim>\<open>main\<close> ignores. Or the child has closed its
  standard input, for one by ending, and the write raises \<^verbatim>\<open>SIGPIPE\<close>: \<^verbatim>\<open>main\<close>
  changes the disposition of \<^verbatim>\<open>SIGCHLD\<close> only, so with the default disposition the
  signal kills the process (\<open>Sigpipe\<close>); where \<^verbatim>\<open>SIGPIPE\<close> is inherited as ignored
  the same write is \<open>Failed\<close>.
\<close>

datatype write_ret = Written | Failed | Sigpipe

text \<open>
  What the system answers. For the block with a given index: the value of \<^verbatim>\<open>pipe\<close>
  (non-zero on failure), the value of \<^verbatim>\<open>fork\<close> in the parent (negative on failure,
  the child's pid otherwise), and for \<^verbatim>\<open>waitpid\<close> the number of calls a signal
  interrupts before the call that ends the loop, with that call's answer. For the
  \<^verbatim>\<open>write\<close> of an iteration: what it does, told apart by the number of input bytes
  that are still unread when it is made, which is different in every iteration. The
  answers are those of calls that return or kill; a statement with a hypothesis on an
  answer says nothing of a run in which that call never returns. The model is the
  parent's run: the child, where \<^verbatim>\<open>fork\<close> answers 0, sets its environment and
  executes the command (or returns \<^verbatim>\<open>EXIT_FAILURE\<close>, which the parent sees as the
  child's exit status 1); it is the event \<open>Spawn\<close> below.
\<close>

record world =
  pipe :: "int \<Rightarrow> int"
  fork :: "int \<Rightarrow> int"
  write_pipe :: "nat \<Rightarrow> write_ret"
  waitpid :: "int \<Rightarrow> nat \<times> wait_ret"

fun waitpid_loop :: "nat \<Rightarrow> wait_ret \<Rightarrow> wait_ret" where
  "waitpid_loop 0 r = r"
| "waitpid_loop (Suc n) r = waitpid_loop n r"

subsection \<open>Events\<close>

text \<open>
  \<open>Read\<close>: a buffer \<^verbatim>\<open>fgets\<close> returned. \<open>Spawn\<close>: \<^verbatim>\<open>fork\<close> gave a child, which
  makes the \<^verbatim>\<open>setenv\<close> calls listed, takes the pipe's read end as standard input and
  executes the command. \<open>Write\<close>: the bytes handed to \<^verbatim>\<open>write\<close> on the pipe's write
  end, whatever that write then does. \<open>Close\<close>: the write end is closed. \<open>Wait\<close>:
  the wait loop has ended.
\<close>

text \<open>How the process ends: \<^verbatim>\<open>main\<close> returns a status, or a signal kills the process.\<close>

datatype ending = Return int | Killed nat

datatype event =
    is_Read: Read string
  | is_Spawn: Spawn "(string \<times> string) list"
  | is_Write: Write string
  | is_Close: Close
  | is_Wait: Wait wait_ret

subsection \<open>The variables of \<^verbatim>\<open>main\<close> that live across iterations\<close>

text \<open>
  \<open>f\<close> is the child's pid, negative while no block is open; \<open>blabel\<close> is the C string
  in the buffer of that name. The counters are \<^verbatim>\<open>long\<close>; they count blocks, so a run
  cannot reach the type's bound and they are unbounded integers here.
\<close>

record vars =
  f :: int
  blabel :: string
  index :: int
  count :: int

definition init_vars :: vars where
  "init_vars = \<lparr>f = - 1, blabel = [], index = 0, count = 0\<rparr>"

text \<open>The \<^verbatim>\<open>setenv\<close> calls of the child, in order.\<close>

definition child_setenv :: "int \<Rightarrow> vars \<Rightarrow> (string \<times> string) list" where
  "child_setenv ntimes s =
     [(''XARMOUR_INDEX'', ld (index s)),
      (''XARMOUR_COUNT'', ld (count s)),
      (''XARMOUR_TIMES'', ld ntimes),
      (''XARMOUR_LABEL'', blabel s)]"

text \<open>\<^verbatim>\<open>setenv(name, value, 1)\<close> on an environment, and a list of such calls.\<close>

definition setenv :: "string \<Rightarrow> string \<Rightarrow> (string \<rightharpoonup> string) \<Rightarrow> (string \<rightharpoonup> string)" where
  "setenv name v env = env(name \<mapsto> v)"

fun setenvs :: "(string \<times> string) list \<Rightarrow> (string \<rightharpoonup> string) \<Rightarrow> (string \<rightharpoonup> string)" where
  "setenvs [] env = env"
| "setenvs ((name, v) # calls) env = setenvs calls (setenv name v env)"

subsection \<open>One iteration of the read loop\<close>

text \<open>
  An iteration answers the events it caused and either \<open>Inl\<close> how the process ended
  in it, or \<open>Inr\<close> the variables for the next iteration.
\<close>

text \<open>The first part, \<^verbatim>\<open>if (f < 0)\<close>: seeking the start of the armour.\<close>

definition seek_begin :: "world \<Rightarrow> int \<Rightarrow> string \<Rightarrow> vars \<Rightarrow> event list \<times> (ending + vars)" where
  "seek_begin W ntimes buffer s =
     (if f s < 0 then
        (case scan_label begin_fmt buffer of
           Some label \<Rightarrow>
             let s1 = s\<lparr>blabel := label\<rparr> in
             if pipe W (index s1) \<noteq> 0 then ([], Inl (Return EXIT_FAILURE))
             else
               let pid = fork W (index s1) in
               if pid < 0 then ([], Inl (Return EXIT_FAILURE))
               else ([Spawn (child_setenv ntimes s1)], Inr (s1\<lparr>f := pid\<rparr>))
         | None \<Rightarrow> ([], Inr s))
      else ([], Inr s))"

text \<open>
  The status \<^verbatim>\<open>main\<close> returns for a child that did not succeed when no threshold
  is set: the last three branches after the wait loop.
\<close>

definition give_up :: "wstatus \<Rightarrow> int" where
  "give_up status =
     (if WIFEXITED status then WEXITSTATUS status
      else if WIFSIGNALED status then WTERMSIG status + 128
      else EX_OSERR)"

text \<open>
  The second part, \<^verbatim>\<open>if (f >= 0)\<close>: writing the armour and seeking its end.
  \<open>unread\<close> is the number of input bytes not yet read, which tells the system which
  write this is. A write that returns is followed by the test for the end, whatever it
  returned; a write that raises \<^verbatim>\<open>SIGPIPE\<close> is the last thing the process does.
\<close>

definition seek_end :: "world \<Rightarrow> int \<Rightarrow> nat \<Rightarrow> string \<Rightarrow> vars \<Rightarrow> event list \<times> (ending + vars)" where
  "seek_end W ntimes unread buffer s =
     (if f s \<ge> 0 then
        (case write_pipe W unread of
           Sigpipe \<Rightarrow> ([Write (take (strlen buffer) buffer)], Inl (Killed SIGPIPE))
         | _ \<Rightarrow>
            (case scan_label end_fmt buffer of
               Some elabel \<Rightarrow>
                 if strcmp (blabel s) elabel = 0 then
                   let s1 = s\<lparr>index := index s + 1\<rparr>;
                       w = (case waitpid W (index s) of (n, r) \<Rightarrow> waitpid_loop n r);
                       ev = [Write (take (strlen buffer) buffer), Close, Wait w]
                   in
                   (case w of
                      WaitErr \<Rightarrow> (ev, Inl (Return EXIT_FAILURE))
                    | Reaped status \<Rightarrow>
                        if WIFEXITED status \<and> WEXITSTATUS status = EXIT_SUCCESS then
                          (ev, Inr (s1\<lparr>count := count s1 + 1, f := - 1\<rparr>))
                        else if ntimes \<noteq> 0 then (ev, Inr (s1\<lparr>f := - 1\<rparr>))
                        else (ev, Inl (Return (give_up status))))
                 else ([Write (take (strlen buffer) buffer)], Inr s)
             | None \<Rightarrow> ([Write (take (strlen buffer) buffer)], Inr s)))
      else ([], Inr s))"

definition body :: "world \<Rightarrow> int \<Rightarrow> nat \<Rightarrow> string \<Rightarrow> vars \<Rightarrow> event list \<times> (ending + vars)" where
  "body W ntimes unread buffer s =
     (case seek_begin W ntimes buffer s of
        (ev, Inl e) \<Rightarrow> (ev, Inl e)
      | (ev, Inr s1) \<Rightarrow>
          (case seek_end W ntimes unread buffer s1 of (ev', r) \<Rightarrow> (ev @ ev', r)))"

subsection \<open>The read loop and \<^verbatim>\<open>main\<close>\<close>

function main_loop :: "world \<Rightarrow> int \<Rightarrow> string \<Rightarrow> vars \<Rightarrow> event list \<times> (ending + vars)" where
  "main_loop W ntimes stdin s =
     (case fgets MAX_LINE stdin of
        None \<Rightarrow> ([], Inr s)
      | Some (buffer, rest) \<Rightarrow>
          (case body W ntimes (length rest) buffer s of
             (ev, Inl e) \<Rightarrow> (Read buffer # ev, Inl e)
           | (ev, Inr s1) \<Rightarrow>
               (case main_loop W ntimes rest s1 of (ev', r) \<Rightarrow> (Read buffer # ev @ ev', r))))"
  by pat_completeness auto
termination
proof (relation "measure (\<lambda>(W, ntimes, stdin, s). length stdin)")
  show "wf (measure (\<lambda>(W, ntimes, stdin, s). length stdin))"
    by simp
next
  fix W :: world and ntimes :: int and stdin :: string and s s1 :: vars
    and x2 buffer rest
  assume "fgets MAX_LINE stdin = Some x2" and "(buffer, rest) = x2"
  then have rd: "fgets MAX_LINE stdin = Some (buffer, rest)"
    by simp
  then have ne: "stdin \<noteq> []"
    by (auto simp: fgets_def split: if_splits)
  define window where "window = take (MAX_LINE - 1) stdin"
  define line where "line = takeWhile (\<lambda>c. c \<noteq> newline) window"
  have "window \<noteq> []"
    using ne by (simp add: window_def MAX_LINE_def)
  moreover have "buffer = (if length line < length window then line @ [newline] else line)"
    and rest: "rest = drop (length buffer) stdin"
    using rd ne by (auto simp: fgets_def Let_def window_def line_def)
  ultimately have "buffer \<noteq> []"
    by auto
  then have "length rest < length stdin"
    using ne by (simp add: rest)
  then show "((W, ntimes, rest, s1), W, ntimes, stdin, s) \<in> measure (\<lambda>(W, ntimes, stdin, s). length stdin)"
    by simp
qed

declare main_loop.simps [simp del]

text \<open>
  The buffers that \<^verbatim>\<open>while (fgets(buffer, sizeof(buffer), stdin))\<close> goes through when
  nothing in its body ends the process: what the successive calls of \<^verbatim>\<open>fgets\<close> return,
  each on what the calls before it left in the stream.
\<close>

function buffers :: "string \<Rightarrow> string list" where
  "buffers stdin =
     (case fgets MAX_LINE stdin of
        None \<Rightarrow> []
      | Some (buffer, rest) \<Rightarrow> buffer # buffers rest)"
  by pat_completeness auto
termination
proof (relation "measure length")
  show "wf (measure (length :: string \<Rightarrow> nat))"
    by simp
next
  fix stdin :: string and x2 buffer rest
  assume "fgets MAX_LINE stdin = Some x2" and "(buffer, rest) = x2"
  then have rd: "fgets MAX_LINE stdin = Some (buffer, rest)"
    by simp
  then have ne: "stdin \<noteq> []"
    by (auto simp: fgets_def split: if_splits)
  define window where "window = take (MAX_LINE - 1) stdin"
  define line where "line = takeWhile (\<lambda>c. c \<noteq> newline) window"
  have "window \<noteq> []"
    using ne by (simp add: window_def MAX_LINE_def)
  moreover have "buffer = (if length line < length window then line @ [newline] else line)"
    and rest: "rest = drop (length buffer) stdin"
    using rd ne by (auto simp: fgets_def Let_def window_def line_def)
  ultimately have "buffer \<noteq> []"
    by auto
  then have "length rest < length stdin"
    using ne by (simp add: rest)
  then show "(rest, stdin) \<in> measure length"
    by simp
qed

declare buffers.simps [simp del]

text \<open>After the loop: the threshold decides when one was given.\<close>

definition at_eof :: "int \<Rightarrow> vars \<Rightarrow> int" where
  "at_eof ntimes s =
     (if ntimes \<noteq> 0 then (if count s < ntimes then EXIT_FAILURE else EXIT_SUCCESS)
      else EXIT_SUCCESS)"

text \<open>
  \<^verbatim>\<open>main\<close> once the options are parsed: \<open>ntimes\<close> is the value of \<^verbatim>\<open>-t\<close>, or 0
  when the option was not given. The answer is the events and how the process ended.
\<close>

definition xarmour :: "world \<Rightarrow> int \<Rightarrow> string \<Rightarrow> event list \<times> ending" where
  "xarmour W ntimes stdin =
     (case main_loop W ntimes stdin init_vars of
        (ev, Inl e) \<Rightarrow> (ev, e)
      | (ev, Inr s) \<Rightarrow> (ev, Return (at_eof ntimes s)))"

subsection \<open>Reading the events of a run\<close>

text \<open>The buffers read, in order.\<close>

fun reads :: "event list \<Rightarrow> string list" where
  "reads [] = []"
| "reads (Read b # ev) = b # reads ev"
| "reads (e # ev) = reads ev"

text \<open>A wait that found the child exited with status 0, and how many there are.\<close>

fun success :: "event \<Rightarrow> bool" where
  "success (Wait (Reaped status)) = (WIFEXITED status \<and> WEXITSTATUS status = EXIT_SUCCESS)"
| "success e = False"

definition successes :: "event list \<Rightarrow> nat" where
  "successes ev = length (filter success ev)"

definition spawns :: "event list \<Rightarrow> nat" where
  "spawns ev = length (filter is_Spawn ev)"

definition closes :: "event list \<Rightarrow> nat" where
  "closes ev = length (filter is_Close ev)"

text \<open>The children reaped: the waits that ended with a status.\<close>

fun reaped :: "event \<Rightarrow> bool" where
  "reaped (Wait (Reaped status)) = True"
| "reaped e = False"

definition reaps :: "event list \<Rightarrow> nat" where
  "reaps ev = length (filter reaped ev)"

text \<open>The number of blocks open: one when \<open>f\<close> holds a child, none otherwise.\<close>

definition open_blocks :: "vars \<Rightarrow> nat" where
  "open_blocks s = (if 0 \<le> f s then 1 else 0)"

text \<open>Events that only read the input or write to a child.\<close>

definition quiet :: "event list \<Rightarrow> bool" where
  "quiet ev = list_all (\<lambda>e. is_Read e \<or> is_Write e) ev"

text \<open>
  The shape of a run in which the blocks are forwarded and nothing else is. The flag
  says whether a block is open. With no block open, a buffer read is followed either by
  nothing or by a spawn and the write of that very buffer, which opens a block. With a
  block open, a buffer read is followed by the write of that very buffer; the block is
  closed by a close and a wait. There is no other write.
\<close>

fun forwarded :: "bool \<Rightarrow> event list \<Rightarrow> bool" where
  "forwarded opn [] = True"
| "forwarded opn (Read b # ev) =
     (if opn then
        (case ev of Write w # ev' \<Rightarrow> w = b \<and> forwarded True ev' | _ \<Rightarrow> False)
      else
        (case ev of
           Spawn e # Write w # ev' \<Rightarrow> w = b \<and> forwarded True ev'
         | _ \<Rightarrow> forwarded False ev))"
| "forwarded opn (Close # ev) =
     (opn \<and> (case ev of Wait r # ev' \<Rightarrow> forwarded False ev' | _ \<Rightarrow> False))"
| "forwarded opn (e # ev) = False"

text \<open>
  A system in which nothing fails, every write is taken and every child exits with
  status 0.
\<close>

definition calm :: world where
  "calm = \<lparr>pipe = (\<lambda>i. 0), fork = (\<lambda>i. 4242), write_pipe = (\<lambda>n. Written),
            waitpid = (\<lambda>i. (0, Reaped (Exited 0)))\<rparr>"

text \<open>
  What the two formats compute, in closed form: the input must start with the keyword;
  white space after it is skipped; the label is the run of characters other than
  \<open>-\<close> that follows, cut at 1000, and must not be empty.
\<close>

definition marker :: "string \<Rightarrow> string \<Rightarrow> string option" where
  "marker kw s =
     (if take (length kw) s = kw then
        (let m = take 1000 (takeWhile (\<lambda>x. x \<noteq> CHR ''-'') (dropWhile isspace (drop (length kw) s)))
         in if m = [] then None else Some m)
      else None)"

subsection \<open>Inputs and systems for the examples\<close>

definition two_blocks :: string where
  "two_blocks = ''-----BEGIN A-----\<newline>a\<newline>-----END A-----\<newline>-----BEGIN B-----\<newline>b\<newline>-----END B-----\<newline>''"

definition three_blocks :: string where
  "three_blocks = ''-----BEGIN A-----\<newline>-----END A-----\<newline>between\<newline>-----BEGIN B-----\<newline>-----END B-----\<newline>-----BEGIN C-----\<newline>-----END C-----\<newline>''"

text \<open>
  A system in which nothing fails and every child exits with status 0, but the child
  that is there when \<open>k\<close> bytes of input are unread has closed its standard input: the
  write made then raises \<^verbatim>\<open>SIGPIPE\<close>.
\<close>

definition pipe_breaks :: "nat \<Rightarrow> world" where
  "pipe_breaks k = calm\<lparr>write_pipe := (\<lambda>n. if n = k then Sigpipe else Written)\<rparr>"

text \<open>A system in which nothing fails and the child of block \<open>k\<close> ends as given, the others with status 0.\<close>

definition child_ends :: "int \<Rightarrow> wait_ret \<Rightarrow> world" where
  "child_ends k r = calm\<lparr>waitpid := (\<lambda>i. if i = k then (0, r) else (0, Reaped (Exited 0)))\<rparr>"

definition alpha_beta :: string where
  "alpha_beta = ''-----BEGIN ALPHA-----\<newline>-----END BETA-----\<newline>-----END ALPHA-----\<newline>''"

text \<open>The variables while a block labelled \<open>L\<close> is open, before any block was closed.\<close>

definition in_block :: "string \<Rightarrow> vars" where
  "in_block L = \<lparr>f = 4242, blabel = L, index = 0, count = 0\<rparr>"

definition nested :: string where
  "nested = ''-----BEGIN A-----\<newline>-----BEGIN B-----\<newline>-----END B-----\<newline>-----END A-----\<newline>''"

definition unterminated :: string where
  "unterminated = ''before\<newline>-----BEGIN A-----\<newline>abc\<newline>''"

definition with_nul :: string where
  "with_nul = ''-----BEGIN A-----\<newline>a'' @ [NUL] @ ''b\<newline>-----END A-----\<newline>''"

definition long_line :: string where
  "long_line = replicate 1023 CHR ''x'' @ ''-----BEGIN A-----\<newline>-----END A-----\<newline>''"

section \<open>Basic facts\<close>

subsection \<open>Library functions and the matchers\<close>

lemma waitpid_loop_id [simp]: "waitpid_loop n r = r"
  by (induction n) simp_all

lemma write_strlen [simp]: "take (strlen buffer) buffer = cstr buffer"
  by (simp add: strlen_def cstr_def takeWhile_eq_take [symmetric])

lemma strcmp_eq: "strcmp a b = 0 \<longleftrightarrow> a = b"
  by (induction a b rule: strcmp.induct) auto

lemma sscanf_lits: "sscanf (p @ r) (map Lit p @ fmt) out = sscanf r fmt out"
  by (induction p) simp_all

lemma sscanf_lits_mismatch:
  "take (length p) s \<noteq> p \<Longrightarrow> snd (sscanf s (map Lit p @ fmt) out) = out"
proof (induction p arbitrary: s)
  case Nil
  then show ?case by simp
next
  case (Cons a p)
  then show ?case by (cases s) auto
qed

lemma sscanf_lits_tail:
  "out \<noteq> [] \<Longrightarrow> sscanf s (map Lit q) out = (int (length out), out)"
proof (induction q arbitrary: s)
  case Nil
  then show ?case by simp
next
  case (Cons a q)
  then show ?case by (cases s) auto
qed

lemma marker_SomeD:
  "marker kw s = Some L \<Longrightarrow> \<exists>r. s = kw @ r"
  by (metis append_take_drop_id marker_def option.distinct(1))

lemma scan_label_marker:
  "scan_label (map Lit kw @ WS # NotSet 1000 CHR ''-'' # map Lit q) buffer = marker kw (cstr buffer)"
proof (cases "take (length kw) (cstr buffer) = kw")
  case True
  then have split: "cstr buffer = kw @ drop (length kw) (cstr buffer)"
    by (metis append_take_drop_id)
  show ?thesis
    unfolding scan_label_def marker_def
    apply (subst split)
    apply (simp only: sscanf_lits)
    apply (simp add: True Let_def sscanf_lits_tail)
    done
next
  case False
  then have "snd (sscanf (cstr buffer) (map Lit kw @ WS # NotSet 1000 CHR ''-'' # map Lit q) []) = []"
    by (rule sscanf_lits_mismatch)
  then show ?thesis
    using False
    by (cases "sscanf (cstr buffer) (map Lit kw @ WS # NotSet 1000 CHR ''-'' # map Lit q) []")
       (simp add: scan_label_def marker_def)
qed

lemma scan_begin: "scan_label begin_fmt buffer = marker ''-----BEGIN'' (cstr buffer)"
  using scan_label_marker [of "''-----BEGIN''" "''-----''" buffer]
  by (simp only: begin_fmt_def append.simps)

lemma scan_end: "scan_label end_fmt buffer = marker ''-----END'' (cstr buffer)"
  using scan_label_marker [of "''-----END''" "''-----''" buffer]
  by (simp only: end_fmt_def append.simps)

lemma begin_not_end:
  assumes "scan_label begin_fmt buffer = Some L"
  shows "scan_label end_fmt buffer = None"
proof -
  from assms obtain r where "cstr buffer = ''-----BEGIN'' @ r"
    using marker_SomeD by (fastforce simp: scan_begin)
  then show ?thesis
    by (simp add: scan_end marker_def)
qed

lemma body_skip:
  "f s < 0 \<Longrightarrow> scan_label begin_fmt buffer = None \<Longrightarrow>
   body W ntimes unread buffer s = ([], Inr s)"
  by (simp add: body_def seek_begin_def seek_end_def)

lemma body_spawn_failed:
  "f s < 0 \<Longrightarrow> scan_label begin_fmt buffer = Some L \<Longrightarrow>
   pipe W (index s) \<noteq> 0 \<or> fork W (index s) < 0 \<Longrightarrow>
   body W ntimes unread buffer s = ([], Inl (Return EXIT_FAILURE))"
  by (auto simp: body_def seek_begin_def Let_def)

lemma body_opened:
  "f s < 0 \<Longrightarrow> scan_label begin_fmt buffer = Some L \<Longrightarrow>
   pipe W (index s) = 0 \<Longrightarrow> 0 \<le> fork W (index s) \<Longrightarrow>
   body W ntimes unread buffer s =
     ([Spawn (child_setenv ntimes (s\<lparr>blabel := L\<rparr>)), Write (cstr buffer)],
      if write_pipe W unread = Sigpipe then Inl (Killed SIGPIPE)
      else Inr (s\<lparr>blabel := L, f := fork W (index s)\<rparr>))"
  by (simp add: body_def seek_begin_def seek_end_def Let_def begin_not_end split: write_ret.splits)

lemma body_content:
  "0 \<le> f s \<Longrightarrow> scan_label end_fmt buffer \<noteq> Some (blabel s) \<Longrightarrow>
   body W ntimes unread buffer s =
     ([Write (cstr buffer)], if write_pipe W unread = Sigpipe then Inl (Killed SIGPIPE) else Inr s)"
  by (auto simp: body_def seek_begin_def seek_end_def strcmp_eq split: option.splits write_ret.splits)

lemma body_killed:
  "0 \<le> f s \<Longrightarrow> write_pipe W unread = Sigpipe \<Longrightarrow>
   body W ntimes unread buffer s = ([Write (cstr buffer)], Inl (Killed SIGPIPE))"
  by (simp add: body_def seek_begin_def seek_end_def)

lemma body_closing:
  "0 \<le> f s \<Longrightarrow> scan_label end_fmt buffer = Some (blabel s) \<Longrightarrow>
   write_pipe W unread \<noteq> Sigpipe \<Longrightarrow> waitpid W (index s) = (n, r) \<Longrightarrow>
   body W ntimes unread buffer s =
     ([Write (cstr buffer), Close, Wait r],
      case r of
        WaitErr \<Rightarrow> Inl (Return EXIT_FAILURE)
      | Reaped status \<Rightarrow>
          if WIFEXITED status \<and> WEXITSTATUS status = EXIT_SUCCESS
          then Inr (s\<lparr>index := index s + 1, count := count s + 1, f := - 1\<rparr>)
          else if ntimes \<noteq> 0 then Inr (s\<lparr>index := index s + 1, f := - 1\<rparr>)
          else Inl (Return (give_up status)))"
  by (auto simp: body_def seek_begin_def seek_end_def strcmp_eq Let_def
      split: wait_ret.splits write_ret.splits)

lemma body_cases [case_names skip spawn_failed opened opened_killed content killed
    wait_failed succeeded tolerated gave_up]:
  obtains
    "f s < 0" "scan_label begin_fmt buffer = None" "body W ntimes unread buffer s = ([], Inr s)"
  | L where "f s < 0" "scan_label begin_fmt buffer = Some L"
      "pipe W (index s) \<noteq> 0 \<or> fork W (index s) < 0"
      "body W ntimes unread buffer s = ([], Inl (Return EXIT_FAILURE))"
  | L where "f s < 0" "scan_label begin_fmt buffer = Some L"
      "pipe W (index s) = 0" "0 \<le> fork W (index s)" "write_pipe W unread \<noteq> Sigpipe"
      "body W ntimes unread buffer s =
         ([Spawn (child_setenv ntimes (s\<lparr>blabel := L\<rparr>)), Write (cstr buffer)],
          Inr (s\<lparr>blabel := L, f := fork W (index s)\<rparr>))"
  | L where "f s < 0" "scan_label begin_fmt buffer = Some L"
      "pipe W (index s) = 0" "0 \<le> fork W (index s)" "write_pipe W unread = Sigpipe"
      "body W ntimes unread buffer s =
         ([Spawn (child_setenv ntimes (s\<lparr>blabel := L\<rparr>)), Write (cstr buffer)],
          Inl (Killed SIGPIPE))"
  | "0 \<le> f s" "scan_label end_fmt buffer \<noteq> Some (blabel s)"
      "write_pipe W unread \<noteq> Sigpipe"
      "body W ntimes unread buffer s = ([Write (cstr buffer)], Inr s)"
  | "0 \<le> f s" "write_pipe W unread = Sigpipe"
      "body W ntimes unread buffer s = ([Write (cstr buffer)], Inl (Killed SIGPIPE))"
  | n where "0 \<le> f s" "scan_label end_fmt buffer = Some (blabel s)"
      "write_pipe W unread \<noteq> Sigpipe" "waitpid W (index s) = (n, WaitErr)"
      "body W ntimes unread buffer s =
         ([Write (cstr buffer), Close, Wait WaitErr], Inl (Return EXIT_FAILURE))"
  | n status where "0 \<le> f s" "scan_label end_fmt buffer = Some (blabel s)"
      "write_pipe W unread \<noteq> Sigpipe" "waitpid W (index s) = (n, Reaped status)"
      "WIFEXITED status \<and> WEXITSTATUS status = EXIT_SUCCESS"
      "body W ntimes unread buffer s =
         ([Write (cstr buffer), Close, Wait (Reaped status)],
          Inr (s\<lparr>index := index s + 1, count := count s + 1, f := - 1\<rparr>))"
  | n status where "0 \<le> f s" "scan_label end_fmt buffer = Some (blabel s)"
      "write_pipe W unread \<noteq> Sigpipe" "waitpid W (index s) = (n, Reaped status)"
      "\<not> (WIFEXITED status \<and> WEXITSTATUS status = EXIT_SUCCESS)" "ntimes \<noteq> 0"
      "body W ntimes unread buffer s =
         ([Write (cstr buffer), Close, Wait (Reaped status)],
          Inr (s\<lparr>index := index s + 1, f := - 1\<rparr>))"
  | n status where "0 \<le> f s" "scan_label end_fmt buffer = Some (blabel s)"
      "write_pipe W unread \<noteq> Sigpipe" "waitpid W (index s) = (n, Reaped status)"
      "\<not> (WIFEXITED status \<and> WEXITSTATUS status = EXIT_SUCCESS)" "ntimes = 0"
      "body W ntimes unread buffer s =
         ([Write (cstr buffer), Close, Wait (Reaped status)], Inl (Return (give_up status)))"
proof (cases "f s < 0")
  case closed: True
  show ?thesis
  proof (cases "scan_label begin_fmt buffer")
    case None
    with closed that(1) show ?thesis
      by (simp add: body_skip)
  next
    case (Some L)
    show ?thesis
    proof (cases "pipe W (index s) \<noteq> 0 \<or> fork W (index s) < 0")
      case True
      with closed Some that(2) show ?thesis
        by (simp add: body_spawn_failed)
    next
      case False
      then have ok: "pipe W (index s) = 0" "0 \<le> fork W (index s)"
        by auto
      note b = body_opened [OF closed Some ok, of ntimes unread]
      show ?thesis
      proof (cases "write_pipe W unread = Sigpipe")
        case True
        with closed Some ok b that(4) [of L] show ?thesis
          by simp
      next
        case False
        with closed Some ok b that(3) [of L] show ?thesis
          by simp
      qed
    qed
  qed
next
  case False
  then have opn: "0 \<le> f s"
    by simp
  show ?thesis
  proof (cases "write_pipe W unread = Sigpipe")
    case True
    with opn that(6) show ?thesis
      by (simp add: body_killed)
  next
    case wr: False
    show ?thesis
    proof (cases "scan_label end_fmt buffer = Some (blabel s)")
      case no: False
      with opn wr that(5) show ?thesis
        by (simp add: body_content)
    next
      case True
      obtain n r where w: "waitpid W (index s) = (n, r)"
        by (cases "waitpid W (index s)")
      note b = body_closing [OF opn True wr w, of ntimes]
      show ?thesis
      proof (cases r)
        case WaitErr
        with opn True wr w b that(7) [of n] show ?thesis
          by simp
      next
        case (Reaped status)
        show ?thesis
        proof (cases "WIFEXITED status \<and> WEXITSTATUS status = EXIT_SUCCESS")
          case ok: True
          with opn True wr w b Reaped that(8) [of n status] show ?thesis
            by simp
        next
          case bad: False
          show ?thesis
          proof (cases "ntimes = 0")
            case True
            with opn \<open>scan_label end_fmt buffer = Some (blabel s)\<close> wr w b Reaped bad
              that(10) [of n status] show ?thesis
              by simp
          next
            case False
            with opn \<open>scan_label end_fmt buffer = Some (blabel s)\<close> wr w b Reaped bad
              that(9) [of n status] show ?thesis
              by simp
          qed
        qed
      qed
    qed
  qed
qed

lemma fgets_None: "fgets MAX_LINE stdin = None \<longleftrightarrow> stdin = []"
  by (simp add: fgets_def Let_def)

lemma fgets_Some:
  assumes "fgets MAX_LINE stdin = Some (buffer, rest)"
  shows "stdin = buffer @ rest" and "buffer \<noteq> []" and "length buffer \<le> MAX_LINE - 1"
proof -
  from assms have ne: "stdin \<noteq> []"
    by (auto simp: fgets_def split: if_splits)
  define window where "window = take (MAX_LINE - 1) stdin"
  define line where "line = takeWhile (\<lambda>c. c \<noteq> newline) window"
  have wne: "window \<noteq> []"
    using ne by (simp add: window_def MAX_LINE_def)
  have buf: "buffer = (if length line < length window then line @ [newline] else line)"
    and rest: "rest = drop (length buffer) stdin"
    using assms ne by (auto simp: fgets_def Let_def window_def line_def)
  have le: "length line \<le> length window"
    by (simp add: line_def length_takeWhile_le)
  show "buffer \<noteq> []"
    using wne by (auto simp: buf)
  have wlen: "length window \<le> MAX_LINE - 1"
    by (simp add: window_def)
  show len: "length buffer \<le> MAX_LINE - 1"
    using le wlen by (auto simp: buf)
  have pre: "take (length buffer) window = buffer"
  proof (cases "length line < length window")
    case True
    then have "window ! length line = newline"
      using nth_length_takeWhile [of "\<lambda>c. c \<noteq> newline" window] by (simp add: line_def)
    moreover have "take (length line) window = line"
      by (metis line_def takeWhile_eq_take)
    ultimately have "take (Suc (length line)) window = line @ [newline]"
      using True by (simp add: take_Suc_conv_app_nth)
    then show ?thesis
      using True by (simp add: buf)
  next
    case False
    then have "length window \<le> length line"
      by simp
    moreover have "take (length line) window = line"
      by (metis line_def takeWhile_eq_take)
    ultimately have "line = window"
      by (metis take_all)
    then show ?thesis
      using False by (simp add: buf)
  qed
  have "take (length buffer) window = take (length buffer) stdin"
    using len by (simp add: window_def min_def)
  with pre have "take (length buffer) stdin = buffer"
    by simp
  then show "stdin = buffer @ rest"
    by (metis append_take_drop_id rest)
qed

subsection \<open>The read loop\<close>

lemma main_loop_eof:
  "fgets MAX_LINE stdin = None \<Longrightarrow> main_loop W ntimes stdin s = ([], Inr s)"
  by (simp add: main_loop.simps)

lemma main_loop_returned:
  "fgets MAX_LINE stdin = Some (buffer, rest) \<Longrightarrow>
   body W ntimes (length rest) buffer s = (ev, Inl e) \<Longrightarrow>
   main_loop W ntimes stdin s = (Read buffer # ev, Inl e)"
  by (simp add: main_loop.simps)

lemma main_loop_continued:
  "fgets MAX_LINE stdin = Some (buffer, rest) \<Longrightarrow>
   body W ntimes (length rest) buffer s = (ev, Inr s1) \<Longrightarrow>
   main_loop W ntimes rest s1 = (ev', r) \<Longrightarrow>
   main_loop W ntimes stdin s = (Read buffer # ev @ ev', r)"
  by (simp add: main_loop.simps)

text \<open>Induction along the iterations of the loop, on the events and the answer.\<close>

lemma main_loop_induct [consumes 1, case_names eof returned continued]:
  assumes run: "main_loop W ntimes stdin s = (ev, r)"
    and eof: "\<And>stdin s. fgets MAX_LINE stdin = None \<Longrightarrow> P stdin s [] (Inr s)"
    and returned: "\<And>stdin s buffer rest ev e.
      fgets MAX_LINE stdin = Some (buffer, rest) \<Longrightarrow>
      body W ntimes (length rest) buffer s = (ev, Inl e) \<Longrightarrow>
      P stdin s (Read buffer # ev) (Inl e)"
    and continued: "\<And>stdin s buffer rest ev s1 ev' r.
      fgets MAX_LINE stdin = Some (buffer, rest) \<Longrightarrow>
      body W ntimes (length rest) buffer s = (ev, Inr s1) \<Longrightarrow>
      main_loop W ntimes rest s1 = (ev', r) \<Longrightarrow> P rest s1 ev' r \<Longrightarrow>
      P stdin s (Read buffer # ev @ ev') r"
  shows "P stdin s ev r"
  using run
proof (induction "length stdin" arbitrary: stdin s ev r rule: less_induct)
  case less
  show ?case
  proof (cases "fgets MAX_LINE stdin")
    case None
    then show ?thesis
      using eof [OF None] less.prems by (auto simp: main_loop_eof)
  next
    case (Some x)
    obtain buffer rest where x: "x = (buffer, rest)"
      by (cases x)
    have rd: "fgets MAX_LINE stdin = Some (buffer, rest)"
      using Some x by simp
    obtain evb rb where b: "body W ntimes (length rest) buffer s = (evb, rb)"
      by (cases "body W ntimes (length rest) buffer s")
    show ?thesis
    proof (cases rb)
      case (Inl e)
      with b have b': "body W ntimes (length rest) buffer s = (evb, Inl e)"
        by simp
      show ?thesis
        using returned [OF rd b'] main_loop_returned [OF rd b'] less.prems by auto
    next
      case (Inr s1)
      with b have b': "body W ntimes (length rest) buffer s = (evb, Inr s1)"
        by simp
      obtain ev' r' where m: "main_loop W ntimes rest s1 = (ev', r')"
        by (cases "main_loop W ntimes rest s1")
      have "length rest < length stdin"
        using fgets_Some(1,2) [OF rd] by (cases buffer) auto
      then have "P rest s1 ev' r'"
        using m by (rule less.hyps)
      then show ?thesis
        using continued [OF rd b' m] main_loop_continued [OF rd b' m] less.prems by auto
    qed
  qed
qed

subsection \<open>The child's environment\<close>

lemma digits_not_empty: "digits n \<noteq> []"
  by (subst digits.simps) simp

lemma ld_not_empty: "ld n \<noteq> []"
  by (simp add: ld_def digits_not_empty)

lemma body_spawn_env:
  assumes "Spawn env \<in> set (fst (body W ntimes unread buffer s))"
  shows "\<exists>s'. env = child_setenv ntimes s'"
  using assms
  by (cases rule: body_cases [where s = s and W = W and ntimes = ntimes
        and unread = unread and buffer = buffer]) auto

lemma main_loop_spawn_env:
  assumes "main_loop W ntimes stdin s = (ev, r)" and "Spawn env \<in> set ev"
  shows "\<exists>s'. env = child_setenv ntimes s'"
  using assms
proof (induction rule: main_loop_induct)
  case (eof stdin s)
  then show ?case by simp
next
  case (returned stdin s buffer rest ev rc)
  then show ?case
    using body_spawn_env [where env = env and W = W and ntimes = ntimes
        and unread = "length rest" and buffer = buffer and s = s] by auto
next
  case (continued stdin s buffer rest ev s1 ev' r)
  then show ?case
    using body_spawn_env [where env = env and W = W and ntimes = ntimes
        and unread = "length rest" and buffer = buffer and s = s] by auto
qed

subsection \<open>Events of one iteration and of the loop\<close>

lemma reads_append: "reads (xs @ ys) = reads xs @ reads ys"
  by (induction xs rule: reads.induct) simp_all

lemma successes_append: "successes (xs @ ys) = successes xs + successes ys"
  by (simp add: successes_def)

lemma body_reads: "reads (fst (body W ntimes unread buffer s)) = []"
  by (cases rule: body_cases [where s = s and W = W and ntimes = ntimes
        and unread = unread and buffer = buffer]) simp_all

lemma body_count:
  assumes "body W ntimes unread buffer s = (ev, Inr s1)"
  shows "count s1 = count s + int (successes ev)"
  using assms
  by (cases rule: body_cases [where s = s and W = W and ntimes = ntimes
        and unread = unread and buffer = buffer])
     (auto simp: successes_def)

lemma main_loop_count:
  assumes "main_loop W ntimes stdin s = (ev, r)" and "r = Inr s'"
  shows "count s' = count s + int (successes ev)"
  using assms
proof (induction arbitrary: s' rule: main_loop_induct)
  case (eof stdin s)
  then show ?case by (simp add: successes_def)
next
  case (returned stdin s buffer rest ev rc)
  then show ?case by simp
next
  case (continued stdin s buffer rest ev s1 ev' r)
  then show ?case
    using body_count [OF continued(2)]
    by (auto simp: successes_def)
qed

lemma main_loop_reads:
  assumes "main_loop W ntimes stdin s = (ev, r)"
  shows "\<exists>rest. stdin = concat (reads ev) @ rest \<and> (\<not> isl r \<longrightarrow> rest = [])"
  using assms
proof (induction rule: main_loop_induct)
  case (eof stdin s)
  then show ?case by (simp add: fgets_None)
next
  case (returned stdin s buffer rest ev rc)
  then show ?case
    using body_reads [of W ntimes "length rest" buffer s] fgets_Some(1) [of stdin buffer rest] by simp
next
  case (continued stdin s buffer rest ev s1 ev' r)
  then show ?case
    using body_reads [of W ntimes "length rest" buffer s] fgets_Some(1) [of stdin buffer rest]
    by (auto simp: reads_append)
qed

subsection \<open>Failures and the threshold\<close>

lemma body_tolerant:
  assumes "ntimes \<noteq> 0"
    and "\<forall>i. pipe W i = 0 \<and> 0 \<le> fork W i \<and> snd (waitpid W i) \<noteq> WaitErr"
    and "\<forall>n. write_pipe W n \<noteq> Sigpipe"
    and "body W ntimes unread buffer s = (ev, r)"
  shows "\<not> isl r"
proof -
  from assms(2,3) have "pipe W (index s) = 0 \<and> 0 \<le> fork W (index s)
      \<and> snd (waitpid W (index s)) \<noteq> WaitErr \<and> write_pipe W unread \<noteq> Sigpipe"
    by blast
  with assms(1,4) show ?thesis
    by (cases rule: body_cases [where s = s and W = W and ntimes = ntimes
        and unread = unread and buffer = buffer])
       auto
qed

lemma main_loop_tolerant:
  assumes "main_loop W ntimes stdin s = (ev, r)"
    and "ntimes \<noteq> 0"
    and "\<forall>i. pipe W i = 0 \<and> 0 \<le> fork W i \<and> snd (waitpid W i) \<noteq> WaitErr"
    and "\<forall>n. write_pipe W n \<noteq> Sigpipe"
  shows "\<not> isl r"
  using assms
proof (induction rule: main_loop_induct)
  case (eof stdin s)
  then show ?case by simp
next
  case (returned stdin s buffer rest ev rc)
  then show ?case
    using body_tolerant [OF returned(3,4,5,2)] by simp
next
  case (continued stdin s buffer rest ev s1 ev' r)
  then show ?case by simp
qed



subsection \<open>Spawns, closes and waits alternate\<close>

lemma spawns_append: "spawns (xs @ ys) = spawns xs + spawns ys"
  by (simp add: spawns_def)

lemma closes_append: "closes (xs @ ys) = closes xs + closes ys"
  by (simp add: closes_def)

lemma reaps_append: "reaps (xs @ ys) = reaps xs + reaps ys"
  by (simp add: reaps_def)

lemma body_bracket:
  assumes "body W ntimes unread buffer s = (ev, r)"
  shows "spawns (take k ev) + open_blocks s \<le> Suc (closes (take k ev))"
    and "spawns (take k ev) + open_blocks s \<le> Suc (reaps (take k ev))"
    and "r = Inr s1 \<Longrightarrow> spawns ev + open_blocks s = closes ev + open_blocks s1"
    and "r = Inr s1 \<Longrightarrow> spawns ev + open_blocks s = reaps ev + open_blocks s1"
  using assms
  by (cases rule: body_cases [where s = s and W = W and ntimes = ntimes
        and unread = unread and buffer = buffer];
      auto simp: spawns_def closes_def reaps_def open_blocks_def take_Cons')+

lemma main_loop_bracket:
  assumes "main_loop W ntimes stdin s = (ev, r)"
  shows "spawns (take k ev) + open_blocks s \<le> Suc (closes (take k ev))
       \<and> spawns (take k ev) + open_blocks s \<le> Suc (reaps (take k ev))"
  using assms
proof (induction arbitrary: k rule: main_loop_induct)
  case (eof stdin s)
  then show ?case
    by (simp add: spawns_def closes_def reaps_def open_blocks_def)
next
  case (returned stdin s buffer rest ev rc)
  show ?case
  proof (cases k)
    case 0
    then show ?thesis
      by (simp add: spawns_def closes_def reaps_def open_blocks_def)
  next
    case (Suc j)
    then show ?thesis
      using body_bracket(1,2) [OF returned(2), of j]
      by (simp add: spawns_def closes_def reaps_def)
  qed
next
  case (continued stdin s buffer rest ev s1 ev' r)
  show ?case
  proof (cases k)
    case 0
    then show ?thesis
      by (simp add: spawns_def closes_def reaps_def open_blocks_def)
  next
    case (Suc j)
    show ?thesis
    proof (cases "j \<le> length ev")
      case True
      then show ?thesis
        using Suc body_bracket(1,2) [OF continued(2), of j]
        by (simp add: spawns_def closes_def reaps_def)
    next
      case False
      then have tk: "take j (ev @ ev') = ev @ take (j - length ev) ev'"
        by simp
      have "spawns (take (Suc j) (Read buffer # ev @ ev')) = spawns ev + spawns (take (j - length ev) ev')"
        and "closes (take (Suc j) (Read buffer # ev @ ev')) = closes ev + closes (take (j - length ev) ev')"
        and "reaps (take (Suc j) (Read buffer # ev @ ev')) = reaps ev + reaps (take (j - length ev) ev')"
        using tk by (simp_all add: spawns_def closes_def reaps_def)
      then show ?thesis
        using Suc body_bracket(3,4) [OF continued(2) refl] continued(4) [of "j - length ev"]
        by simp
    qed
  qed
qed

subsection \<open>A block still open at the end of input\<close>

lemma quiet_append: "quiet (xs @ ys) = (quiet xs \<and> quiet ys)"
  by (simp add: quiet_def)

lemma body_index:
  assumes "body W ntimes unread buffer s = (ev, Inr s1)"
  shows "index s \<le> index s1"
  using assms
  by (cases rule: body_cases [where s = s and W = W and ntimes = ntimes
        and unread = unread and buffer = buffer]) auto

lemma main_loop_index:
  assumes "main_loop W ntimes stdin s = (ev, r)" and "r = Inr s'"
  shows "index s \<le> index s'"
  using assms
proof (induction arbitrary: s' rule: main_loop_induct)
  case (eof stdin s)
  then show ?case by simp
next
  case (returned stdin s buffer rest ev rc)
  then show ?case by simp
next
  case (continued stdin s buffer rest ev s1 ev' r)
  then show ?case
    using body_index [OF continued(2)] by fastforce
qed

lemma main_loop_open_at_eof:
  assumes "main_loop W ntimes stdin s0 = (ev, r)" and "r = Inr s" and "0 \<le> f s"
  shows "(0 \<le> f s0 \<and> quiet ev) \<or> (\<exists>pre env ws. ev = pre @ Spawn env # ws \<and> quiet ws)"
  using assms
proof (induction arbitrary: s rule: main_loop_induct)
  case (eof stdin s0)
  then show ?case by (simp add: quiet_def)
next
  case (returned stdin s0 buffer rest ev rc)
  then show ?case by simp
next
  case (continued stdin s0 buffer rest ev s1 ev' r)
  from continued(4) [OF continued(5,6)]
  consider "0 \<le> f s1" "quiet ev'" | pre env ws where "ev' = pre @ Spawn env # ws" "quiet ws"
    by blast
  then show ?case
  proof cases
    case 1
    from continued(2) 1 show ?thesis
    proof (cases rule: body_cases [where s = s0 and W = W and ntimes = ntimes
          and unread = "length rest" and buffer = buffer])
      case (opened L)
      with continued(2) have "Read buffer # ev @ ev' =
          [Read buffer] @ Spawn (child_setenv ntimes (s0\<lparr>blabel := L\<rparr>)) # (Write (cstr buffer) # ev')"
        by simp
      moreover have "quiet (Write (cstr buffer) # ev')"
        using 1 by (simp add: quiet_def)
      ultimately show ?thesis
        by blast
    next
      case content
      with continued(2) 1 show ?thesis
        by (auto simp: quiet_def)
    qed auto
  next
    case 2
    then have "Read buffer # ev @ ev' = (Read buffer # ev @ pre) @ Spawn env # ws"
      by simp
    with 2 show ?thesis
      by blast
  qed
qed

lemma body_world_cong:
  assumes "pipe W' = pipe W" and "fork W' = fork W" and "write_pipe W' = write_pipe W"
    and "0 \<le> f s \<and> scan_label end_fmt buffer = Some (blabel s) \<longrightarrow>
         waitpid W' (index s) = waitpid W (index s)"
  shows "body W' ntimes unread buffer s = body W ntimes unread buffer s"
proof (cases "0 \<le> f s")
  case opn: True
  show ?thesis
  proof (cases "write_pipe W unread = Sigpipe")
    case True
    then have "write_pipe W' unread = Sigpipe"
      using assms(3) by simp
    with True show ?thesis
      by (simp only: body_killed [OF opn])
  next
    case wr: False
    then have wr': "write_pipe W' unread \<noteq> Sigpipe"
      using assms(3) by simp
    show ?thesis
    proof (cases "scan_label end_fmt buffer = Some (blabel s)")
      case True
      obtain n r where w: "waitpid W (index s) = (n, r)"
        by (cases "waitpid W (index s)")
      with opn True assms(4) have w': "waitpid W' (index s) = (n, r)"
        by simp
      show ?thesis
        by (simp only: body_closing [OF opn True wr w] body_closing [OF opn True wr' w'])
    next
      case False
      with opn show ?thesis
        by (simp add: body_content assms(3))
    qed
  qed
next
  case False
  then have closed: "f s < 0"
    by simp
  show ?thesis
  proof (cases "scan_label begin_fmt buffer")
    case None
    with closed show ?thesis
      by (simp add: body_skip)
  next
    case (Some L)
    show ?thesis
    proof (cases "pipe W (index s) \<noteq> 0 \<or> fork W (index s) < 0")
      case True
      then have "pipe W' (index s) \<noteq> 0 \<or> fork W' (index s) < 0"
        using assms(1,2) by simp
      with True show ?thesis
        by (simp only: body_spawn_failed [OF closed Some])
    next
      case False
      then have ok: "pipe W (index s) = 0" "0 \<le> fork W (index s)"
        by auto
      then have ok': "pipe W' (index s) = 0" "0 \<le> fork W' (index s)"
        using assms(1,2) by simp_all
      show ?thesis
        by (simp only: body_opened [OF closed Some ok] body_opened [OF closed Some ok']
            assms(2,3))
    qed
  qed
qed

lemma body_closing_index:
  assumes "body W ntimes unread buffer s = (ev, Inr s1)"
    and "0 \<le> f s" and "scan_label end_fmt buffer = Some (blabel s)"
  shows "index s1 = index s + 1"
  using assms
  by (cases rule: body_cases [where s = s and W = W and ntimes = ntimes
        and unread = unread and buffer = buffer]) auto

lemma main_loop_waitpid_cong:
  assumes "main_loop W ntimes stdin s = (ev, r)" and "r = Inr s'"
    and "pipe W' = pipe W" and "fork W' = fork W" and "write_pipe W' = write_pipe W"
    and "\<forall>i. index s \<le> i \<and> i < index s' \<longrightarrow> waitpid W' i = waitpid W i"
  shows "main_loop W' ntimes stdin s = (ev, Inr s')"
  using assms
proof (induction arbitrary: s' rule: main_loop_induct)
  case (eof stdin s)
  then show ?case by (simp add: main_loop_eof)
next
  case (returned stdin s buffer rest ev rc)
  then show ?case by simp
next
  case (continued stdin s buffer rest ev s1 ev' r)
  have le1: "index s \<le> index s1"
    using body_index [OF continued(2)] .
  have le2: "index s1 \<le> index s'"
    using main_loop_index [OF continued(3,5)] .
  have "0 \<le> f s \<and> scan_label end_fmt buffer = Some (blabel s) \<longrightarrow>
         waitpid W' (index s) = waitpid W (index s)"
  proof
    assume "0 \<le> f s \<and> scan_label end_fmt buffer = Some (blabel s)"
    then have "index s1 = index s + 1"
      using body_closing_index [OF continued(2)] by simp
    with le2 continued(9) show "waitpid W' (index s) = waitpid W (index s)"
      by simp
  qed
  then have b: "body W' ntimes (length rest) buffer s = (ev, Inr s1)"
    using body_world_cong [OF continued(6,7,8), of s buffer ntimes "length rest"] continued(2)
    by simp
  have "\<forall>i. index s1 \<le> i \<and> i < index s' \<longrightarrow> waitpid W' i = waitpid W i"
    using le1 continued(9) by auto
  from continued(4) [OF continued(5,6,7,8) this]
  have "main_loop W' ntimes rest s1 = (ev', Inr s')" .
  then show ?case
    using main_loop_continued [OF continued(1) b] by simp
qed

subsection \<open>What is written to the children\<close>

lemma cstr_id: "NUL \<notin> set buf \<Longrightarrow> cstr buf = buf"
  by (auto simp: cstr_def takeWhile_eq_all_conv)

lemma main_loop_starts_with_read:
  assumes "main_loop W ntimes stdin s = (ev, r)"
  shows "ev = [] \<or> (\<exists>b ev'. ev = Read b # ev')"
  using assms by (induction rule: main_loop_induct) simp_all

lemma main_loop_forwarded:
  assumes "main_loop W ntimes stdin s = (ev, r)" and "NUL \<notin> set stdin"
  shows "forwarded (0 \<le> f s) ev"
  using assms
proof (induction rule: main_loop_induct)
  case (eof stdin s)
  then show ?case by simp
next
  case (returned stdin s buffer rest ev rc)
  from fgets_Some(1) [OF returned(1)] returned(3) have "cstr buffer = buffer"
    by (simp add: cstr_id)
  with returned(2) show ?case
    by (cases rule: body_cases [where s = s and W = W and ntimes = ntimes
          and unread = "length rest" and buffer = buffer])
       auto
next
  case (continued stdin s buffer rest ev s1 ev' r)
  from fgets_Some(1) [OF continued(1)] continued(5)
  have c: "cstr buffer = buffer" and "NUL \<notin> set rest"
    by (simp_all add: cstr_id)
  then have IH: "forwarded (0 \<le> f s1) ev'"
    using continued(4) by simp
  from main_loop_starts_with_read [OF continued(3)]
  have skip: "forwarded False (Read buffer # ev') = forwarded False ev'"
    by auto
  from continued(2) show ?case
  proof (cases rule: body_cases [where s = s and W = W and ntimes = ntimes
        and unread = "length rest" and buffer = buffer])
    case skip
    with continued(2) IH \<open>forwarded False (Read buffer # ev') = forwarded False ev'\<close>
    show ?thesis by auto
  next
    case (opened L)
    with continued(2) IH c show ?thesis by auto
  next
    case content
    with continued(2) IH c show ?thesis by auto
  next
    case (succeeded n status)
    with continued(2) IH c show ?thesis by auto
  next
    case (tolerated n status)
    with continued(2) IH c show ?thesis by auto
  qed auto
qed

subsection \<open>Long lines\<close>

lemma main_loop_reads_bounded:
  assumes "main_loop W ntimes stdin s = (ev, r)"
  shows "list_all (\<lambda>b. b \<noteq> [] \<and> length b \<le> MAX_LINE - 1) (reads ev)"
  using assms
proof (induction rule: main_loop_induct)
  case (eof stdin s)
  then show ?case by simp
next
  case (returned stdin s buffer rest ev rc)
  then show ?case
    using body_reads [of W ntimes "length rest" buffer s] fgets_Some(2,3) [of stdin buffer rest] by simp
next
  case (continued stdin s buffer rest ev s1 ev' r)
  then show ?case
    using body_reads [of W ntimes "length rest" buffer s] fgets_Some(2,3) [of stdin buffer rest]
    by (simp add: reads_append)
qed

lemma fgets_cut:
  assumes "stdin \<noteq> []" and "newline \<notin> set (take (MAX_LINE - 1) stdin)"
  shows "fgets MAX_LINE stdin = Some (take (MAX_LINE - 1) stdin, drop (MAX_LINE - 1) stdin)"
proof -
  define window where "window = take (MAX_LINE - 1) stdin"
  have tw: "takeWhile (\<lambda>c. c \<noteq> newline) window = window"
    using assms(2) by (auto simp: takeWhile_eq_all_conv window_def)
  have dr: "drop (length window) stdin = drop (MAX_LINE - 1) stdin"
    by (cases "MAX_LINE - 1 \<le> length stdin") (simp_all add: min_def window_def)
  have "fgets MAX_LINE stdin = Some (window, drop (length window) stdin)"
    using assms(1) unfolding fgets_def Let_def window_def [symmetric] by (simp add: tw)
  then show ?thesis
    by (simp only: dr) (simp add: window_def)
qed

lemma takeWhile_short:
  assumes "x \<in> set ys" and "\<not> P x"
  shows "length (takeWhile P ys) < length ys"
proof (rule ccontr)
  assume "\<not> length (takeWhile P ys) < length ys"
  then have "length ys \<le> length (takeWhile P ys)"
    by simp
  moreover have "takeWhile P ys = take (length (takeWhile P ys)) ys"
    by (rule takeWhile_eq_take)
  ultimately have "takeWhile P ys = ys"
    by simp
  with assms show False
    by (simp add: takeWhile_eq_all_conv)
qed

lemma takeWhile_take:
  assumes "x \<in> set (take n xs)" and "\<not> P x"
  shows "takeWhile P (take n xs) = takeWhile P xs"
proof -
  have "takeWhile P (take n xs @ drop n xs) = takeWhile P (take n xs)"
    using assms by (rule takeWhile_append1)
  then show ?thesis
    by simp
qed

lemma fgets_line:
  assumes "newline \<in> set (take (MAX_LINE - 1) stdin)"
  shows "fgets MAX_LINE stdin =
     Some (takeWhile (\<lambda>c. c \<noteq> newline) stdin @ [newline],
           drop (Suc (length (takeWhile (\<lambda>c. c \<noteq> newline) stdin))) stdin)"
proof -
  have ne: "stdin \<noteq> []"
    using assms by auto
  have a: "takeWhile (\<lambda>c. c \<noteq> newline) (take (MAX_LINE - 1) stdin) =
      takeWhile (\<lambda>c. c \<noteq> newline) stdin"
    using assms by (rule takeWhile_take) simp
  have "length (takeWhile (\<lambda>c. c \<noteq> newline) (take (MAX_LINE - 1) stdin))
      < length (take (MAX_LINE - 1) stdin)"
    using assms by (rule takeWhile_short) simp
  then have "length (takeWhile (\<lambda>c. c \<noteq> newline) stdin) < length (take (MAX_LINE - 1) stdin)"
    by (simp only: a)
  then show ?thesis
    using ne a by (simp add: fgets_def Let_def)
qed

lemma buffers_Nil: "buffers [] = []"
  by (simp add: buffers.simps fgets_def)

lemma buffers_Some:
  "fgets MAX_LINE stdin = Some (buffer, rest) \<Longrightarrow> buffers stdin = buffer # buffers rest"
  by (simp add: buffers.simps)

lemma main_loop_reads_buffers:
  assumes "main_loop W ntimes stdin s = (ev, r)"
  shows "reads ev = take (length (reads ev)) (buffers stdin)
       \<and> (\<not> isl r \<longrightarrow> reads ev = buffers stdin)
       \<and> ((reads ev = []) = (stdin = []))"
  using assms
proof (induction rule: main_loop_induct)
  case (eof stdin s)
  then show ?case by (simp add: fgets_None buffers_Nil)
next
  case (returned stdin s buffer rest ev rc)
  then show ?case
    using body_reads [of W ntimes "length rest" buffer s] fgets_Some(1,2) [of stdin buffer rest]
    by (simp add: buffers_Some)
next
  case (continued stdin s buffer rest ev s1 ev' r)
  then show ?case
    using body_reads [of W ntimes "length rest" buffer s] fgets_Some(1,2) [of stdin buffer rest]
    by (simp add: buffers_Some reads_append)
qed

lemma fgets_long:
  assumes "c \<noteq> newline"
  shows "fgets MAX_LINE (replicate 1023 c @ r) = Some (replicate 1023 c, r)"
  using assms by (simp add: fgets_def MAX_LINE_def Let_def)

lemma scan_begin_long: "scan_label begin_fmt (replicate 1023 CHR ''x'') = None"
proof -
  have "cstr (replicate 1023 CHR ''x'') = replicate 1023 CHR ''x''"
    by (simp add: cstr_id NUL_def)
  moreover have "take (length ''-----BEGIN'') (replicate 1023 CHR ''x'') = ''xxxxxxxxxx''"
    by simp
  ultimately show ?thesis
    by (simp add: scan_begin marker_def)
qed

lemma main_loop_long_line:
  "main_loop calm 0 long_line init_vars =
     (Read (replicate 1023 CHR ''x'') # [Read ''-----BEGIN A-----\<newline>'',
       Spawn [(''XARMOUR_INDEX'', ''0''), (''XARMOUR_COUNT'', ''0''), (''XARMOUR_TIMES'', ''0''),
              (''XARMOUR_LABEL'', ''A'')],
       Write ''-----BEGIN A-----\<newline>'',
       Read ''-----END A-----\<newline>'', Write ''-----END A-----\<newline>'', Close,
       Wait (Reaped (Exited 0))],
      Inr \<lparr>f = - 1, blabel = ''A'', index = 1, count = 1\<rparr>)"
proof -
  have r: "fgets MAX_LINE long_line =
      Some (replicate 1023 CHR ''x'', ''-----BEGIN A-----\<newline>-----END A-----\<newline>'')"
    unfolding long_line_def by (rule fgets_long) (simp add: newline_def)
  have b: "body calm 0 (length ''-----BEGIN A-----\<newline>-----END A-----\<newline>'')
      (replicate 1023 CHR ''x'') init_vars = ([], Inr init_vars)"
    by (rule body_skip) (simp_all add: init_vars_def scan_begin_long)
  have m: "main_loop calm 0 ''-----BEGIN A-----\<newline>-----END A-----\<newline>'' init_vars =
     ([Read ''-----BEGIN A-----\<newline>'',
       Spawn [(''XARMOUR_INDEX'', ''0''), (''XARMOUR_COUNT'', ''0''), (''XARMOUR_TIMES'', ''0''),
              (''XARMOUR_LABEL'', ''A'')],
       Write ''-----BEGIN A-----\<newline>'',
       Read ''-----END A-----\<newline>'', Write ''-----END A-----\<newline>'', Close,
       Wait (Reaped (Exited 0))],
      Inr \<lparr>f = - 1, blabel = ''A'', index = 1, count = 1\<rparr>)"
    by code_simp
  show ?thesis
    using main_loop_continued [OF r b m] by simp
qed

subsection \<open>Labels\<close>



section \<open>The claims\<close>

subsection \<open>C1: failures when a threshold is set\<close>

text \<open>
  Claim C1, as amended. With a threshold set, a child that is reaped with any status
  other than exit 0 (a non-zero exit, a signal, anything else) is only counted as a
  block: \<open>index\<close> grows, \<open>count\<close> does not, and the loop goes on with the next
  line. So with a threshold set, when \<^verbatim>\<open>pipe\<close>, \<^verbatim>\<open>fork\<close> and \<^verbatim>\<open>waitpid\<close> do
  not fail and no \<^verbatim>\<open>write\<close> raises \<^verbatim>\<open>SIGPIPE\<close> (every call returning: the
  answers of the system are those of calls that return), the loop reaches the end of the
  stream, the buffers read make up the whole input, and \<open>count\<close> is the number of
  children that exited 0. Threshold or not, three things end the run at the line where
  they happen, and what is left of the input is not read: a failure of \<^verbatim>\<open>pipe\<close> or
  \<^verbatim>\<open>fork\<close> at a BEGIN line and a failure of \<^verbatim>\<open>waitpid\<close> at the END line make
  \<^verbatim>\<open>main\<close> return \<^verbatim>\<open>EXIT_FAILURE\<close>; a \<^verbatim>\<open>write\<close> that raises \<^verbatim>\<open>SIGPIPE\<close>,
  on a line of an open block or on the BEGIN line itself, kills the process, the bytes
  handed to that write being its last event.
\<close>

theorem threshold_tolerates_children:
  "(ntimes \<noteq> 0 \<and> 0 \<le> f s \<and> scan_label end_fmt buffer = Some (blabel s)
      \<and> write_pipe W unread \<noteq> Sigpipe
      \<and> waitpid W (index s) = (n, Reaped status) \<and> \<not> success (Wait (Reaped status)) \<longrightarrow>
      body W ntimes unread buffer s =
        ([Write (cstr buffer), Close, Wait (Reaped status)],
         Inr (s\<lparr>index := index s + 1, f := - 1\<rparr>)))
   \<and> (ntimes \<noteq> 0
      \<and> (\<forall>i. pipe W i = 0 \<and> 0 \<le> fork W i \<and> snd (waitpid W i) \<noteq> WaitErr)
      \<and> (\<forall>k. write_pipe W k \<noteq> Sigpipe) \<longrightarrow>
      (\<exists>ev s'. main_loop W ntimes stdin init_vars = (ev, Inr s')
         \<and> concat (reads ev) = stdin \<and> count s' = int (successes ev)))
   \<and> (fgets MAX_LINE stdin = Some (buffer, rest) \<and> f s < 0
      \<and> scan_label begin_fmt buffer \<noteq> None
      \<and> (pipe W (index s) \<noteq> 0 \<or> fork W (index s) < 0) \<longrightarrow>
      main_loop W ntimes stdin s = ([Read buffer], Inl (Return EXIT_FAILURE)))
   \<and> (fgets MAX_LINE stdin = Some (buffer, rest) \<and> 0 \<le> f s
      \<and> scan_label end_fmt buffer = Some (blabel s)
      \<and> write_pipe W (length rest) \<noteq> Sigpipe
      \<and> snd (waitpid W (index s)) = WaitErr \<longrightarrow>
      main_loop W ntimes stdin s =
        ([Read buffer, Write (cstr buffer), Close, Wait WaitErr], Inl (Return EXIT_FAILURE)))
   \<and> (fgets MAX_LINE stdin = Some (buffer, rest) \<and> 0 \<le> f s
      \<and> write_pipe W (length rest) = Sigpipe \<longrightarrow>
      main_loop W ntimes stdin s = ([Read buffer, Write (cstr buffer)], Inl (Killed SIGPIPE)))
   \<and> (fgets MAX_LINE stdin = Some (buffer, rest) \<and> f s < 0
      \<and> scan_label begin_fmt buffer = Some L
      \<and> pipe W (index s) = 0 \<and> 0 \<le> fork W (index s)
      \<and> write_pipe W (length rest) = Sigpipe \<longrightarrow>
      main_loop W ntimes stdin s =
        ([Read buffer, Spawn (child_setenv ntimes (s\<lparr>blabel := L\<rparr>)), Write (cstr buffer)],
         Inl (Killed SIGPIPE)))"
proof (intro conjI impI)
  assume a: "ntimes \<noteq> 0 \<and> 0 \<le> f s \<and> scan_label end_fmt buffer = Some (blabel s)
      \<and> write_pipe W unread \<noteq> Sigpipe
      \<and> waitpid W (index s) = (n, Reaped status) \<and> \<not> success (Wait (Reaped status))"
  then have "body W ntimes unread buffer s =
     ([Write (cstr buffer), Close, Wait (Reaped status)],
      case Reaped status of
        WaitErr \<Rightarrow> Inl (Return EXIT_FAILURE)
      | Reaped status \<Rightarrow>
          if WIFEXITED status \<and> WEXITSTATUS status = EXIT_SUCCESS
          then Inr (s\<lparr>index := index s + 1, count := count s + 1, f := - 1\<rparr>)
          else if ntimes \<noteq> 0 then Inr (s\<lparr>index := index s + 1, f := - 1\<rparr>)
          else Inl (Return (give_up status)))"
    using body_closing [of s buffer W unread n "Reaped status" ntimes] by blast
  with a show "body W ntimes unread buffer s =
        ([Write (cstr buffer), Close, Wait (Reaped status)],
         Inr (s\<lparr>index := index s + 1, f := - 1\<rparr>))"
    by auto
next
  assume a: "ntimes \<noteq> 0
      \<and> (\<forall>i. pipe W i = 0 \<and> 0 \<le> fork W i \<and> snd (waitpid W i) \<noteq> WaitErr)
      \<and> (\<forall>k. write_pipe W k \<noteq> Sigpipe)"
  then have nz: "ntimes \<noteq> 0"
    and sys: "\<forall>i. pipe W i = 0 \<and> 0 \<le> fork W i \<and> snd (waitpid W i) \<noteq> WaitErr"
    and wr: "\<forall>k. write_pipe W k \<noteq> Sigpipe"
    by blast+
  obtain ev r where run: "main_loop W ntimes stdin init_vars = (ev, r)"
    by (cases "main_loop W ntimes stdin init_vars")
  from main_loop_tolerant [OF run nz sys wr] obtain s' where r: "r = Inr s'"
    by (cases r) auto
  have "count s' = int (successes ev)"
    using main_loop_count [OF run r] by (simp add: init_vars_def)
  moreover have "concat (reads ev) = stdin"
    using main_loop_reads [OF run] r by auto
  ultimately show "\<exists>ev s'. main_loop W ntimes stdin init_vars = (ev, Inr s')
      \<and> concat (reads ev) = stdin \<and> count s' = int (successes ev)"
    using run r by blast
next
  assume a: "fgets MAX_LINE stdin = Some (buffer, rest) \<and> f s < 0
      \<and> scan_label begin_fmt buffer \<noteq> None
      \<and> (pipe W (index s) \<noteq> 0 \<or> fork W (index s) < 0)"
  then obtain L where "scan_label begin_fmt buffer = Some L"
    by auto
  with a have "body W ntimes (length rest) buffer s = ([], Inl (Return EXIT_FAILURE))"
    using body_spawn_failed [of s buffer L W ntimes "length rest"] by blast
  with a show "main_loop W ntimes stdin s = ([Read buffer], Inl (Return EXIT_FAILURE))"
    using main_loop_returned [of stdin buffer rest W ntimes s "[]" "Return EXIT_FAILURE"] by blast
next
  assume a: "fgets MAX_LINE stdin = Some (buffer, rest) \<and> 0 \<le> f s
      \<and> scan_label end_fmt buffer = Some (blabel s)
      \<and> write_pipe W (length rest) \<noteq> Sigpipe
      \<and> snd (waitpid W (index s)) = WaitErr"
  then obtain n where "waitpid W (index s) = (n, WaitErr)"
    by (cases "waitpid W (index s)") auto
  with a have "body W ntimes (length rest) buffer s =
      ([Write (cstr buffer), Close, Wait WaitErr], Inl (Return EXIT_FAILURE))"
    using body_closing [of s buffer W "length rest" n WaitErr ntimes] by simp
  with a show "main_loop W ntimes stdin s =
      ([Read buffer, Write (cstr buffer), Close, Wait WaitErr], Inl (Return EXIT_FAILURE))"
    using main_loop_returned [of stdin buffer rest W ntimes s _ "Return EXIT_FAILURE"] by blast
next
  assume a: "fgets MAX_LINE stdin = Some (buffer, rest) \<and> 0 \<le> f s
      \<and> write_pipe W (length rest) = Sigpipe"
  then have "body W ntimes (length rest) buffer s = ([Write (cstr buffer)], Inl (Killed SIGPIPE))"
    using body_killed [of s W "length rest" ntimes buffer] by blast
  with a show "main_loop W ntimes stdin s =
      ([Read buffer, Write (cstr buffer)], Inl (Killed SIGPIPE))"
    using main_loop_returned [of stdin buffer rest W ntimes s _ "Killed SIGPIPE"] by blast
next
  assume a: "fgets MAX_LINE stdin = Some (buffer, rest) \<and> f s < 0
      \<and> scan_label begin_fmt buffer = Some L
      \<and> pipe W (index s) = 0 \<and> 0 \<le> fork W (index s)
      \<and> write_pipe W (length rest) = Sigpipe"
  then have "body W ntimes (length rest) buffer s =
      ([Spawn (child_setenv ntimes (s\<lparr>blabel := L\<rparr>)), Write (cstr buffer)],
       if write_pipe W (length rest) = Sigpipe then Inl (Killed SIGPIPE)
       else Inr (s\<lparr>blabel := L, f := fork W (index s)\<rparr>))"
    using body_opened [of s buffer L W ntimes "length rest"] by blast
  with a have "body W ntimes (length rest) buffer s =
      ([Spawn (child_setenv ntimes (s\<lparr>blabel := L\<rparr>)), Write (cstr buffer)],
       Inl (Killed SIGPIPE))"
    by simp
  with a show "main_loop W ntimes stdin s =
        ([Read buffer, Spawn (child_setenv ntimes (s\<lparr>blabel := L\<rparr>)), Write (cstr buffer)],
         Inl (Killed SIGPIPE))"
    using main_loop_returned [of stdin buffer rest W ntimes s _ "Killed SIGPIPE"] by blast
qed

text \<open>
  The theorem: at the END line of a block whose child is killed by signal 9, with
  threshold 2; at the two blocks of which that is the first, where the loop ends with
  two blocks counted and one success; at a BEGIN line where \<^verbatim>\<open>fork\<close> fails; at an
  END line where \<^verbatim>\<open>waitpid\<close> fails; at a content line and at a BEGIN line where the
  write raises \<^verbatim>\<open>SIGPIPE\<close>. And a run with threshold 2 in which nothing fails and
  the child of the first of three blocks has gone when its END line is written: the
  process is killed there and the other two blocks are never read.
\<close>

theorem threshold_tolerates_children_witness:
  "(2::int) \<noteq> 0
   \<and> 0 \<le> f (in_block ''A'')
   \<and> scan_label end_fmt ''-----END A-----\<newline>'' = Some (blabel (in_block ''A''))
   \<and> write_pipe (child_ends 0 (Reaped (Signaled 9))) 36 \<noteq> Sigpipe
   \<and> waitpid (child_ends 0 (Reaped (Signaled 9))) (index (in_block ''A'')) = (0, Reaped (Signaled 9))
   \<and> \<not> success (Wait (Reaped (Signaled 9)))
   \<and> body (child_ends 0 (Reaped (Signaled 9))) 2 36 ''-----END A-----\<newline>'' (in_block ''A'') =
       ([Write (cstr ''-----END A-----\<newline>''), Close, Wait (Reaped (Signaled 9))],
        Inr ((in_block ''A'')\<lparr>index := index (in_block ''A'') + 1, f := - 1\<rparr>))
   \<and> (\<forall>i. pipe (child_ends 0 (Reaped (Signaled 9))) i = 0
          \<and> 0 \<le> fork (child_ends 0 (Reaped (Signaled 9))) i
          \<and> snd (waitpid (child_ends 0 (Reaped (Signaled 9))) i) \<noteq> WaitErr)
   \<and> (\<forall>k. write_pipe (child_ends 0 (Reaped (Signaled 9))) k \<noteq> Sigpipe)
   \<and> (\<exists>ev s'. main_loop (child_ends 0 (Reaped (Signaled 9))) 2 two_blocks init_vars = (ev, Inr s')
          \<and> concat (reads ev) = two_blocks \<and> count s' = int (successes ev))
   \<and> snd (main_loop (child_ends 0 (Reaped (Signaled 9))) 2 two_blocks init_vars) =
       Inr \<lparr>f = - 1, blabel = ''B'', index = 2, count = 1\<rparr>
   \<and> fgets MAX_LINE ''-----BEGIN A-----\<newline>more'' = Some (''-----BEGIN A-----\<newline>'', ''more'')
   \<and> f init_vars < 0
   \<and> scan_label begin_fmt ''-----BEGIN A-----\<newline>'' \<noteq> None
   \<and> fork (calm\<lparr>fork := (\<lambda>i. - 1)\<rparr>) (index init_vars) < 0
   \<and> main_loop (calm\<lparr>fork := (\<lambda>i. - 1)\<rparr>) 2 ''-----BEGIN A-----\<newline>more'' init_vars =
       ([Read ''-----BEGIN A-----\<newline>''], Inl (Return EXIT_FAILURE))
   \<and> fgets MAX_LINE ''-----END A-----\<newline>more'' = Some (''-----END A-----\<newline>'', ''more'')
   \<and> write_pipe (child_ends 0 WaitErr) (length ''more'') \<noteq> Sigpipe
   \<and> snd (waitpid (child_ends 0 WaitErr) (index (in_block ''A''))) = WaitErr
   \<and> main_loop (child_ends 0 WaitErr) 2 ''-----END A-----\<newline>more'' (in_block ''A'') =
       ([Read ''-----END A-----\<newline>'', Write (cstr ''-----END A-----\<newline>''), Close, Wait WaitErr],
        Inl (Return EXIT_FAILURE))
   \<and> fgets MAX_LINE ''a\<newline>more'' = Some (''a\<newline>'', ''more'')
   \<and> write_pipe (pipe_breaks 4) (length ''more'') = Sigpipe
   \<and> main_loop (pipe_breaks 4) 2 ''a\<newline>more'' (in_block ''A'') =
       ([Read ''a\<newline>'', Write (cstr ''a\<newline>'')], Inl (Killed SIGPIPE))
   \<and> scan_label begin_fmt ''-----BEGIN A-----\<newline>'' = Some ''A''
   \<and> pipe (pipe_breaks 4) (index init_vars) = 0
   \<and> 0 \<le> fork (pipe_breaks 4) (index init_vars)
   \<and> main_loop (pipe_breaks 4) 2 ''-----BEGIN A-----\<newline>more'' init_vars =
       ([Read ''-----BEGIN A-----\<newline>'',
         Spawn (child_setenv 2 (init_vars\<lparr>blabel := ''A''\<rparr>)),
         Write (cstr ''-----BEGIN A-----\<newline>'')], Inl (Killed SIGPIPE))
   \<and> xarmour (pipe_breaks 76) 2 three_blocks =
       ([Read ''-----BEGIN A-----\<newline>'',
         Spawn [(''XARMOUR_INDEX'', ''0''), (''XARMOUR_COUNT'', ''0''), (''XARMOUR_TIMES'', ''2''),
                (''XARMOUR_LABEL'', ''A'')],
         Write ''-----BEGIN A-----\<newline>'',
         Read ''-----END A-----\<newline>'', Write ''-----END A-----\<newline>''], Killed SIGPIPE)"
proof -
  have h: "(2::int) \<noteq> 0"
    by simp
  have a1: "0 \<le> f (in_block ''A'')"
    by (simp add: in_block_def)
  have a2: "scan_label end_fmt ''-----END A-----\<newline>'' = Some (blabel (in_block ''A''))"
    by code_simp
  have a3: "write_pipe (child_ends 0 (Reaped (Signaled 9))) 36 \<noteq> Sigpipe"
    by (simp add: child_ends_def calm_def)
  have a4: "waitpid (child_ends 0 (Reaped (Signaled 9))) (index (in_block ''A'')) = (0, Reaped (Signaled 9))"
    by (simp add: child_ends_def in_block_def)
  have a5: "\<not> success (Wait (Reaped (Signaled 9)))"
    by simp
  have b1: "(\<forall>i. pipe (child_ends 0 (Reaped (Signaled 9))) i = 0
          \<and> 0 \<le> fork (child_ends 0 (Reaped (Signaled 9))) i
          \<and> snd (waitpid (child_ends 0 (Reaped (Signaled 9))) i) \<noteq> WaitErr)"
    by (simp add: child_ends_def calm_def)
  have b2: "(\<forall>k. write_pipe (child_ends 0 (Reaped (Signaled 9))) k \<noteq> Sigpipe)"
    by (simp add: child_ends_def calm_def)
  have c1: "fgets MAX_LINE ''-----BEGIN A-----\<newline>more'' = Some (''-----BEGIN A-----\<newline>'', ''more'')"
    by code_simp
  have c2: "f init_vars < 0"
    by (simp add: init_vars_def)
  have c3: "scan_label begin_fmt ''-----BEGIN A-----\<newline>'' \<noteq> None"
    by code_simp
  have c4: "fork (calm\<lparr>fork := (\<lambda>i. - 1)\<rparr>) (index init_vars) < 0"
    by simp
  have c5: "pipe (calm\<lparr>fork := (\<lambda>i. - 1)\<rparr>) (index init_vars) \<noteq> 0
      \<or> fork (calm\<lparr>fork := (\<lambda>i. - 1)\<rparr>) (index init_vars) < 0"
    using c4 by (rule disjI2)
  have d1: "fgets MAX_LINE ''-----END A-----\<newline>more'' = Some (''-----END A-----\<newline>'', ''more'')"
    by code_simp
  have d3: "write_pipe (child_ends 0 WaitErr) (length ''more'') \<noteq> Sigpipe"
    by (simp add: child_ends_def calm_def)
  have d4: "snd (waitpid (child_ends 0 WaitErr) (index (in_block ''A''))) = WaitErr"
    by (simp add: child_ends_def in_block_def)
  have e1: "fgets MAX_LINE ''a\<newline>more'' = Some (''a\<newline>'', ''more'')"
    by code_simp
  have e2: "write_pipe (pipe_breaks 4) (length ''more'') = Sigpipe"
    by (simp add: pipe_breaks_def)
  have f3: "scan_label begin_fmt ''-----BEGIN A-----\<newline>'' = Some ''A''"
    by code_simp
  have f4: "pipe (pipe_breaks 4) (index init_vars) = 0"
    by (simp add: pipe_breaks_def calm_def)
  have f5: "0 \<le> fork (pipe_breaks 4) (index init_vars)"
    by (simp add: pipe_breaks_def calm_def)
  have x1: "snd (main_loop (child_ends 0 (Reaped (Signaled 9))) 2 two_blocks init_vars) =
       Inr \<lparr>f = - 1, blabel = ''B'', index = 2, count = 1\<rparr>"
    by code_simp
  have x2: "xarmour (pipe_breaks 76) 2 three_blocks =
       ([Read ''-----BEGIN A-----\<newline>'',
         Spawn [(''XARMOUR_INDEX'', ''0''), (''XARMOUR_COUNT'', ''0''), (''XARMOUR_TIMES'', ''2''),
                (''XARMOUR_LABEL'', ''A'')],
         Write ''-----BEGIN A-----\<newline>'',
         Read ''-----END A-----\<newline>'', Write ''-----END A-----\<newline>''], Killed SIGPIPE)"
    by code_simp
  have A: "body (child_ends 0 (Reaped (Signaled 9))) 2 36 ''-----END A-----\<newline>'' (in_block ''A'') =
       ([Write (cstr ''-----END A-----\<newline>''), Close, Wait (Reaped (Signaled 9))],
        Inr ((in_block ''A'')\<lparr>index := index (in_block ''A'') + 1, f := - 1\<rparr>))"
    by (rule threshold_tolerates_children [where W = "child_ends 0 (Reaped (Signaled 9))"
        and ntimes = 2 and s = "in_block ''A''" and buffer = "''-----END A-----\<newline>''"
        and unread = 36 and n = 0 and status = "Signaled 9",
        THEN conjunct1, THEN mp])
       (intro conjI h a1 a2 a3 a4 a5)
  have B: "(\<exists>ev s'. main_loop (child_ends 0 (Reaped (Signaled 9))) 2 two_blocks init_vars = (ev, Inr s')
          \<and> concat (reads ev) = two_blocks \<and> count s' = int (successes ev))"
    by (rule threshold_tolerates_children [where W = "child_ends 0 (Reaped (Signaled 9))"
        and ntimes = 2 and stdin = two_blocks,
        THEN conjunct2, THEN conjunct1, THEN mp])
       (intro conjI h b1 b2)
  have C: "main_loop (calm\<lparr>fork := (\<lambda>i. - 1)\<rparr>) 2 ''-----BEGIN A-----\<newline>more'' init_vars =
       ([Read ''-----BEGIN A-----\<newline>''], Inl (Return EXIT_FAILURE))"
    by (rule threshold_tolerates_children [where W = "calm\<lparr>fork := (\<lambda>i. - 1)\<rparr>"
        and ntimes = 2 and stdin = "''-----BEGIN A-----\<newline>more''"
        and buffer = "''-----BEGIN A-----\<newline>''" and rest = "''more''" and s = init_vars,
        THEN conjunct2, THEN conjunct2, THEN conjunct1, THEN mp])
       (intro conjI c1 c2 c3 c5)
  have D: "main_loop (child_ends 0 WaitErr) 2 ''-----END A-----\<newline>more'' (in_block ''A'') =
       ([Read ''-----END A-----\<newline>'', Write (cstr ''-----END A-----\<newline>''), Close, Wait WaitErr],
        Inl (Return EXIT_FAILURE))"
    by (rule threshold_tolerates_children [where W = "child_ends 0 WaitErr"
        and ntimes = 2 and stdin = "''-----END A-----\<newline>more''"
        and buffer = "''-----END A-----\<newline>''" and rest = "''more''" and s = "in_block ''A''",
        THEN conjunct2, THEN conjunct2, THEN conjunct2, THEN conjunct1, THEN mp])
       (intro conjI d1 a1 a2 d3 d4)
  have E: "main_loop (pipe_breaks 4) 2 ''a\<newline>more'' (in_block ''A'') =
       ([Read ''a\<newline>'', Write (cstr ''a\<newline>'')], Inl (Killed SIGPIPE))"
    by (rule threshold_tolerates_children [where W = "pipe_breaks 4"
        and ntimes = 2 and stdin = "''a\<newline>more''"
        and buffer = "''a\<newline>''" and rest = "''more''" and s = "in_block ''A''",
        THEN conjunct2, THEN conjunct2, THEN conjunct2, THEN conjunct2, THEN conjunct1, THEN mp])
       (intro conjI e1 a1 e2)
  have F: "main_loop (pipe_breaks 4) 2 ''-----BEGIN A-----\<newline>more'' init_vars =
       ([Read ''-----BEGIN A-----\<newline>'',
         Spawn (child_setenv 2 (init_vars\<lparr>blabel := ''A''\<rparr>)),
         Write (cstr ''-----BEGIN A-----\<newline>'')], Inl (Killed SIGPIPE))"
    by (rule threshold_tolerates_children [where W = "pipe_breaks 4"
        and ntimes = 2 and stdin = "''-----BEGIN A-----\<newline>more''"
        and buffer = "''-----BEGIN A-----\<newline>''" and rest = "''more''" and s = init_vars
        and L = "''A''",
        THEN conjunct2, THEN conjunct2, THEN conjunct2, THEN conjunct2, THEN conjunct2, THEN mp])
       (intro conjI c1 c2 f3 f4 f5 e2)
  show ?thesis
    by (intro conjI h a1 a2 a3 a4 a5 A b1 b2 B x1 c1 c2 c3 c4 C d1 d3 d4 D e1 e2 E f3 f4 f5 F x2)
qed


text \<open>
  Claim C1 as stated fails: with threshold 2 and two blocks, a \<^verbatim>\<open>waitpid\<close> failure
  for the first child ends the run with status 1 before the second block is read, and a
  \<^verbatim>\<open>fork\<close> failure ends it at the first BEGIN line.
\<close>

theorem threshold_system_failure_counterexample:
  "xarmour (child_ends 0 WaitErr) 2 two_blocks =
     ([Read ''-----BEGIN A-----\<newline>'',
       Spawn [(''XARMOUR_INDEX'', ''0''), (''XARMOUR_COUNT'', ''0''), (''XARMOUR_TIMES'', ''2''),
              (''XARMOUR_LABEL'', ''A'')],
       Write ''-----BEGIN A-----\<newline>'', Read ''a\<newline>'', Write ''a\<newline>'',
       Read ''-----END A-----\<newline>'', Write ''-----END A-----\<newline>'', Close,
       Wait WaitErr], Return 1)
   \<and> xarmour (calm\<lparr>fork := (\<lambda>i. - 1)\<rparr>) 2 two_blocks =
       ([Read ''-----BEGIN A-----\<newline>''], Return 1)"
  by code_simp

subsection \<open>C2: the environment variable \<^verbatim>\<open>XARMOUR_TIMES\<close>\<close>

text \<open>
  Claim C2, as amended. For every spawned child the variable \<^verbatim>\<open>XARMOUR_TIMES\<close> is
  set, whatever the inherited environment holds, to the decimal text of \<open>ntimes\<close>: the
  configured threshold when \<^verbatim>\<open>-t\<close> was given, and the text \<^verbatim>\<open>0\<close> when it was
  not. It is never unset and never empty.
\<close>

theorem xarmour_times_always_set:
  assumes "Spawn env \<in> set (fst (xarmour W ntimes stdin))"
  shows "setenvs env inherited ''XARMOUR_TIMES'' = Some (ld ntimes) \<and> ld ntimes \<noteq> [] \<and> ld 0 = ''0''"
proof -
  obtain ev r where run: "main_loop W ntimes stdin init_vars = (ev, r)"
    by (cases "main_loop W ntimes stdin init_vars")
  then have "fst (xarmour W ntimes stdin) = ev"
    by (simp add: xarmour_def split: sum.splits)
  with assms obtain s' where "env = child_setenv ntimes s'"
    using main_loop_spawn_env [OF run] by auto
  then have "setenvs env inherited ''XARMOUR_TIMES'' = Some (ld ntimes)"
    by (simp add: child_setenv_def setenv_def)
  moreover have "ld 0 = ''0''"
    by code_simp
  ultimately show ?thesis
    by (simp add: ld_not_empty)
qed

text \<open>The theorem at a run with threshold 2 and one block.\<close>

theorem xarmour_times_always_set_witness:
  "Spawn [(''XARMOUR_INDEX'', ''0''), (''XARMOUR_COUNT'', ''0''), (''XARMOUR_TIMES'', ''2''),
          (''XARMOUR_LABEL'', ''A'')]
     \<in> set (fst (xarmour calm 2 ''-----BEGIN A-----\<newline>''))
   \<and> (setenvs [(''XARMOUR_INDEX'', ''0''), (''XARMOUR_COUNT'', ''0''), (''XARMOUR_TIMES'', ''2''),
          (''XARMOUR_LABEL'', ''A'')] Map.empty ''XARMOUR_TIMES'' = Some (ld 2)
      \<and> ld 2 \<noteq> [] \<and> ld 0 = ''0'')"
proof -
  have h: "Spawn [(''XARMOUR_INDEX'', ''0''), (''XARMOUR_COUNT'', ''0''), (''XARMOUR_TIMES'', ''2''),
          (''XARMOUR_LABEL'', ''A'')]
     \<in> set (fst (xarmour calm 2 ''-----BEGIN A-----\<newline>''))"
    by code_simp
  show ?thesis
    by (rule conjI [OF h xarmour_times_always_set [OF h]])
qed

text \<open>
  Claim C2 as stated fails: with no threshold configured the child of the block sees
  \<^verbatim>\<open>XARMOUR_TIMES=0\<close>, neither unset nor empty.
\<close>

theorem xarmour_times_unset_counterexample:
  "xarmour calm 0 ''-----BEGIN A-----\<newline>'' =
     ([Read ''-----BEGIN A-----\<newline>'',
       Spawn [(''XARMOUR_INDEX'', ''0''), (''XARMOUR_COUNT'', ''0''), (''XARMOUR_TIMES'', ''0''),
              (''XARMOUR_LABEL'', ''A'')],
       Write ''-----BEGIN A-----\<newline>''], Return 0)"
  by code_simp

subsection \<open>C3: without a threshold the first failure ends the run\<close>



subsection \<open>C4: the threshold decides at the end of input\<close>



subsection \<open>C5: the lines of a block are forwarded, and nothing else\<close>

text \<open>
  Claim C5, as amended. For an input without NUL bytes, the events of every run have the
  shape \<open>forwarded\<close>: each buffer read while a block is open, from the BEGIN line that
  spawned the child to the END line that is followed by the close, is written to the
  child right after it is read, byte for byte; a buffer read while no block is open is
  not written; and there is no other write.
\<close>

theorem blocks_are_forwarded:
  assumes "NUL \<notin> set stdin"
  shows "forwarded False (fst (xarmour W ntimes stdin))"
proof -
  obtain ev r where run: "main_loop W ntimes stdin init_vars = (ev, r)"
    by (cases "main_loop W ntimes stdin init_vars")
  then have "fst (xarmour W ntimes stdin) = ev"
    by (simp add: xarmour_def split: sum.splits)
  then show ?thesis
    using main_loop_forwarded [OF run assms] by (simp add: init_vars_def)
qed

text \<open>The theorem at two blocks with a line before them and an unfinished line after.\<close>

theorem blocks_are_forwarded_witness:
  "NUL \<notin> set (''x\<newline>'' @ two_blocks @ ''y'')
   \<and> forwarded False (fst (xarmour calm 0 (''x\<newline>'' @ two_blocks @ ''y'')))
   \<and> xarmour calm 0 (''x\<newline>'' @ two_blocks @ ''y'') =
       ([Read ''x\<newline>'', Read ''-----BEGIN A-----\<newline>'',
        Spawn [(''XARMOUR_INDEX'', ''0''), (''XARMOUR_COUNT'', ''0''), (''XARMOUR_TIMES'', ''0''),
               (''XARMOUR_LABEL'', ''A'')],
        Write ''-----BEGIN A-----\<newline>'', Read ''a\<newline>'', Write ''a\<newline>'',
        Read ''-----END A-----\<newline>'', Write ''-----END A-----\<newline>'', Close,
        Wait (Reaped (Exited 0)), Read ''-----BEGIN B-----\<newline>'',
        Spawn [(''XARMOUR_INDEX'', ''1''), (''XARMOUR_COUNT'', ''1''), (''XARMOUR_TIMES'', ''0''),
               (''XARMOUR_LABEL'', ''B'')],
        Write ''-----BEGIN B-----\<newline>'', Read ''b\<newline>'', Write ''b\<newline>'',
        Read ''-----END B-----\<newline>'', Write ''-----END B-----\<newline>'', Close,
        Wait (Reaped (Exited 0)), Read ''y''], Return 0)"
proof -
  have h: "NUL \<notin> set (''x\<newline>'' @ two_blocks @ ''y'')"
    by (simp add: NUL_def two_blocks_def)
  have c: "xarmour calm 0 (''x\<newline>'' @ two_blocks @ ''y'') =
       ([Read ''x\<newline>'', Read ''-----BEGIN A-----\<newline>'',
        Spawn [(''XARMOUR_INDEX'', ''0''), (''XARMOUR_COUNT'', ''0''), (''XARMOUR_TIMES'', ''0''),
               (''XARMOUR_LABEL'', ''A'')],
        Write ''-----BEGIN A-----\<newline>'', Read ''a\<newline>'', Write ''a\<newline>'',
        Read ''-----END A-----\<newline>'', Write ''-----END A-----\<newline>'', Close,
        Wait (Reaped (Exited 0)), Read ''-----BEGIN B-----\<newline>'',
        Spawn [(''XARMOUR_INDEX'', ''1''), (''XARMOUR_COUNT'', ''1''), (''XARMOUR_TIMES'', ''0''),
               (''XARMOUR_LABEL'', ''B'')],
        Write ''-----BEGIN B-----\<newline>'', Read ''b\<newline>'', Write ''b\<newline>'',
        Read ''-----END B-----\<newline>'', Write ''-----END B-----\<newline>'', Close,
        Wait (Reaped (Exited 0)), Read ''y''], Return 0)"
    by code_simp
  show ?thesis
    by (intro conjI h c blocks_are_forwarded [OF h])
qed

text \<open>
  Claim C5 as stated fails on a line with a NUL byte: \<^verbatim>\<open>write\<close> is given
  \<^verbatim>\<open>strlen(buffer)\<close> bytes, so of the content line \<^verbatim>\<open>a\0b\<close> of block A only
  \<^verbatim>\<open>a\<close> reaches the child.
\<close>

theorem nul_byte_cuts_line_counterexample:
  "xarmour calm 0 with_nul =
     ([Read ''-----BEGIN A-----\<newline>'',
       Spawn [(''XARMOUR_INDEX'', ''0''), (''XARMOUR_COUNT'', ''0''), (''XARMOUR_TIMES'', ''0''),
              (''XARMOUR_LABEL'', ''A'')],
       Write ''-----BEGIN A-----\<newline>'',
       Read (''a'' @ [NUL] @ ''b\<newline>''), Write ''a'',
       Read ''-----END A-----\<newline>'', Write ''-----END A-----\<newline>'', Close,
       Wait (Reaped (Exited 0))], Return 0)
   \<and> \<not> forwarded False (fst (xarmour calm 0 with_nul))"
  by code_simp

subsection \<open>C6: only the END marker with the same label closes a block\<close>

text \<open>
  Claim C6. While a block is open, the write end is closed by a buffer exactly when the
  END matcher stores from it a label equal to \<open>blabel\<close> and the write of that buffer
  has not killed the process; any other buffer, an END line with another label among
  them, is written to the child and leaves every variable as it was (unless that write
  kills the process). The label in \<open>blabel\<close> is the one the BEGIN matcher stored from
  the line that opened the block.
\<close>

theorem end_label_must_match:
  assumes "0 \<le> f s"
  shows "(Close \<in> set (fst (body W ntimes unread buffer s))) =
           (scan_label end_fmt buffer = Some (blabel s) \<and> write_pipe W unread \<noteq> Sigpipe)
       \<and> (scan_label end_fmt buffer \<noteq> Some (blabel s) \<longrightarrow>
            body W ntimes unread buffer s =
              ([Write (cstr buffer)],
               if write_pipe W unread = Sigpipe then Inl (Killed SIGPIPE) else Inr s))
       \<and> (f s0 < 0 \<and> body W ntimes u b s0 = (ev, Inr s) \<longrightarrow>
            scan_label begin_fmt b = Some (blabel s))"
proof (intro conjI impI)
  show "(Close \<in> set (fst (body W ntimes unread buffer s))) =
      (scan_label end_fmt buffer = Some (blabel s) \<and> write_pipe W unread \<noteq> Sigpipe)"
    using assms
    by (cases rule: body_cases [where s = s and W = W and ntimes = ntimes
          and unread = unread and buffer = buffer])
       auto
next
  assume "scan_label end_fmt buffer \<noteq> Some (blabel s)"
  with assms show "body W ntimes unread buffer s =
      ([Write (cstr buffer)],
       if write_pipe W unread = Sigpipe then Inl (Killed SIGPIPE) else Inr s)"
    by (rule body_content)
next
  assume "f s0 < 0 \<and> body W ntimes u b s0 = (ev, Inr s)"
  with assms show "scan_label begin_fmt b = Some (blabel s)"
    by (cases rule: body_cases [where s = s0 and W = W and ntimes = ntimes
          and unread = u and buffer = b])
       auto
qed

text \<open>
  The theorem at a block labelled ALPHA and the line \<^verbatim>\<open>-----END BETA-----\<close>, with the
  whole run: the BETA line is written to the child and only the ALPHA line closes.
\<close>

theorem end_label_must_match_witness:
  "0 \<le> f (in_block ''ALPHA'')
   \<and> (Close \<in> set (fst (body calm 0 20 ''-----END BETA-----\<newline>'' (in_block ''ALPHA'')))) =
       (scan_label end_fmt ''-----END BETA-----\<newline>'' = Some (blabel (in_block ''ALPHA''))
        \<and> write_pipe calm 20 \<noteq> Sigpipe)
   \<and> scan_label end_fmt ''-----END BETA-----\<newline>'' = Some ''BETA''
   \<and> scan_label end_fmt ''-----END BETA-----\<newline>'' \<noteq> Some (blabel (in_block ''ALPHA''))
   \<and> write_pipe calm 20 \<noteq> Sigpipe
   \<and> body calm 0 20 ''-----END BETA-----\<newline>'' (in_block ''ALPHA'') =
       ([Write (cstr ''-----END BETA-----\<newline>'')], Inr (in_block ''ALPHA''))
   \<and> f init_vars < 0
   \<and> body calm 0 39 ''-----BEGIN ALPHA-----\<newline>'' init_vars =
       ([Spawn [(''XARMOUR_INDEX'', ''0''), (''XARMOUR_COUNT'', ''0''), (''XARMOUR_TIMES'', ''0''),
                (''XARMOUR_LABEL'', ''ALPHA'')],
         Write ''-----BEGIN ALPHA-----\<newline>''], Inr (in_block ''ALPHA''))
   \<and> scan_label begin_fmt ''-----BEGIN ALPHA-----\<newline>'' = Some (blabel (in_block ''ALPHA''))
   \<and> xarmour calm 0 alpha_beta =
       ([Read ''-----BEGIN ALPHA-----\<newline>'',
         Spawn [(''XARMOUR_INDEX'', ''0''), (''XARMOUR_COUNT'', ''0''), (''XARMOUR_TIMES'', ''0''),
                (''XARMOUR_LABEL'', ''ALPHA'')],
         Write ''-----BEGIN ALPHA-----\<newline>'',
         Read ''-----END BETA-----\<newline>'', Write ''-----END BETA-----\<newline>'',
         Read ''-----END ALPHA-----\<newline>'', Write ''-----END ALPHA-----\<newline>'', Close,
         Wait (Reaped (Exited 0))], Return 0)"
proof -
  have h: "0 \<le> f (in_block ''ALPHA'')"
    by (simp add: in_block_def)
  have a1: "scan_label end_fmt ''-----END BETA-----\<newline>'' = Some ''BETA''"
    by code_simp
  have a2: "scan_label end_fmt ''-----END BETA-----\<newline>'' \<noteq> Some (blabel (in_block ''ALPHA''))"
    by (simp add: a1 in_block_def)
  have a3: "write_pipe calm 20 \<noteq> Sigpipe"
    by (simp add: calm_def)
  have b1: "f init_vars < 0"
    by (simp add: init_vars_def)
  have b2: "body calm 0 39 ''-----BEGIN ALPHA-----\<newline>'' init_vars =
       ([Spawn [(''XARMOUR_INDEX'', ''0''), (''XARMOUR_COUNT'', ''0''), (''XARMOUR_TIMES'', ''0''),
                (''XARMOUR_LABEL'', ''ALPHA'')],
         Write ''-----BEGIN ALPHA-----\<newline>''], Inr (in_block ''ALPHA''))"
    by code_simp
  have c: "xarmour calm 0 alpha_beta =
       ([Read ''-----BEGIN ALPHA-----\<newline>'',
         Spawn [(''XARMOUR_INDEX'', ''0''), (''XARMOUR_COUNT'', ''0''), (''XARMOUR_TIMES'', ''0''),
                (''XARMOUR_LABEL'', ''ALPHA'')],
         Write ''-----BEGIN ALPHA-----\<newline>'',
         Read ''-----END BETA-----\<newline>'', Write ''-----END BETA-----\<newline>'',
         Read ''-----END ALPHA-----\<newline>'', Write ''-----END ALPHA-----\<newline>'', Close,
         Wait (Reaped (Exited 0))], Return 0)"
    by code_simp
  note t = end_label_must_match [OF h, where W = calm and ntimes = 0 and unread = 20
      and buffer = "''-----END BETA-----\<newline>''" and ?s0.0 = init_vars and u = 39
      and b = "''-----BEGIN ALPHA-----\<newline>''"
      and ev = "[Spawn [(''XARMOUR_INDEX'', ''0''), (''XARMOUR_COUNT'', ''0''), (''XARMOUR_TIMES'', ''0''),
                (''XARMOUR_LABEL'', ''ALPHA'')],
         Write ''-----BEGIN ALPHA-----\<newline>'']"]
  have t2: "body calm 0 20 ''-----END BETA-----\<newline>'' (in_block ''ALPHA'') =
       ([Write (cstr ''-----END BETA-----\<newline>'')], Inr (in_block ''ALPHA''))"
    using t [THEN conjunct2, THEN conjunct1, THEN mp, OF a2] a3 by simp
  have t3: "scan_label begin_fmt ''-----BEGIN ALPHA-----\<newline>'' = Some (blabel (in_block ''ALPHA''))"
    by (rule t [THEN conjunct2, THEN conjunct2, THEN mp]) (intro conjI b1 b2)
  show ?thesis
    by (intro conjI h t [THEN conjunct1] a1 a2 a3 t2 b1 b2 t3 c)
qed

subsection \<open>C7: one block and one child at a time\<close>

text \<open>
  Claim C7. While a block is open, a line that the BEGIN matcher accepts starts nothing:
  it is written to the child and every variable stays as it was (unless that write kills
  the process). So at every point of every run (after any number \<open>k\<close> of events) the
  children spawned are at most one more than the write ends closed, and at most one more
  than the children reaped: at most one block is open and at most one child is active.
\<close>

theorem one_block_at_a_time:
  "(0 \<le> f s \<and> scan_label begin_fmt buffer \<noteq> None \<longrightarrow>
      body W ntimes unread buffer s =
        ([Write (cstr buffer)],
         if write_pipe W unread = Sigpipe then Inl (Killed SIGPIPE) else Inr s))
   \<and> spawns (take k (fst (xarmour W ntimes stdin))) \<le> Suc (closes (take k (fst (xarmour W ntimes stdin))))
   \<and> spawns (take k (fst (xarmour W ntimes stdin))) \<le> Suc (reaps (take k (fst (xarmour W ntimes stdin))))"
proof (intro conjI impI)
  assume a: "0 \<le> f s \<and> scan_label begin_fmt buffer \<noteq> None"
  then have "scan_label end_fmt buffer = None"
    using begin_not_end by auto
  with a show "body W ntimes unread buffer s =
      ([Write (cstr buffer)],
       if write_pipe W unread = Sigpipe then Inl (Killed SIGPIPE) else Inr s)"
    by (simp add: body_content)
next
  obtain ev r where run: "main_loop W ntimes stdin init_vars = (ev, r)"
    by (cases "main_loop W ntimes stdin init_vars")
  then have ev: "fst (xarmour W ntimes stdin) = ev"
    by (simp add: xarmour_def split: sum.splits)
  show "spawns (take k (fst (xarmour W ntimes stdin))) \<le> Suc (closes (take k (fst (xarmour W ntimes stdin))))"
    using main_loop_bracket [OF run, of k] by (simp add: ev)
  show "spawns (take k (fst (xarmour W ntimes stdin))) \<le> Suc (reaps (take k (fst (xarmour W ntimes stdin))))"
    using main_loop_bracket [OF run, of k] by (simp add: ev)
qed

text \<open>
  The theorem at a block A that contains a whole block B: one child is spawned, and the
  lines of B are written to it.
\<close>

theorem one_block_at_a_time_witness:
  "0 \<le> f (in_block ''A'')
   \<and> scan_label begin_fmt ''-----BEGIN B-----\<newline>'' \<noteq> None
   \<and> write_pipe calm 32 \<noteq> Sigpipe
   \<and> body calm 0 32 ''-----BEGIN B-----\<newline>'' (in_block ''A'') =
       ([Write (cstr ''-----BEGIN B-----\<newline>'')], Inr (in_block ''A''))
   \<and> spawns (take 5 (fst (xarmour calm 0 nested))) \<le> Suc (closes (take 5 (fst (xarmour calm 0 nested))))
   \<and> spawns (take 5 (fst (xarmour calm 0 nested))) \<le> Suc (reaps (take 5 (fst (xarmour calm 0 nested))))
   \<and> xarmour calm 0 nested =
       ([Read ''-----BEGIN A-----\<newline>'',
         Spawn [(''XARMOUR_INDEX'', ''0''), (''XARMOUR_COUNT'', ''0''), (''XARMOUR_TIMES'', ''0''),
                (''XARMOUR_LABEL'', ''A'')],
         Write ''-----BEGIN A-----\<newline>'',
         Read ''-----BEGIN B-----\<newline>'', Write ''-----BEGIN B-----\<newline>'',
         Read ''-----END B-----\<newline>'', Write ''-----END B-----\<newline>'',
         Read ''-----END A-----\<newline>'', Write ''-----END A-----\<newline>'', Close,
         Wait (Reaped (Exited 0))], Return 0)"
proof -
  have h1: "0 \<le> f (in_block ''A'')"
    by (simp add: in_block_def)
  have h2: "scan_label begin_fmt ''-----BEGIN B-----\<newline>'' \<noteq> None"
    by code_simp
  have h3: "write_pipe calm 32 \<noteq> Sigpipe"
    by (simp add: calm_def)
  have c: "xarmour calm 0 nested =
       ([Read ''-----BEGIN A-----\<newline>'',
         Spawn [(''XARMOUR_INDEX'', ''0''), (''XARMOUR_COUNT'', ''0''), (''XARMOUR_TIMES'', ''0''),
                (''XARMOUR_LABEL'', ''A'')],
         Write ''-----BEGIN A-----\<newline>'',
         Read ''-----BEGIN B-----\<newline>'', Write ''-----BEGIN B-----\<newline>'',
         Read ''-----END B-----\<newline>'', Write ''-----END B-----\<newline>'',
         Read ''-----END A-----\<newline>'', Write ''-----END A-----\<newline>'', Close,
         Wait (Reaped (Exited 0))], Return 0)"
    by code_simp
  note t = one_block_at_a_time [where s = "in_block ''A''" and buffer = "''-----BEGIN B-----\<newline>''"
      and W = calm and ntimes = 0 and unread = 32 and k = 5 and stdin = nested]
  have t1: "body calm 0 32 ''-----BEGIN B-----\<newline>'' (in_block ''A'') =
       ([Write (cstr ''-----BEGIN B-----\<newline>'')], Inr (in_block ''A''))"
    using t [THEN conjunct1, THEN mp, OF conjI [OF h1 h2]] h3 by simp
  show ?thesis
    by (intro conjI h1 h2 h3 t1 t [THEN conjunct2, THEN conjunct1]
        t [THEN conjunct2, THEN conjunct2] c)
qed

subsection \<open>C8: end of input inside a block\<close>

text \<open>
  Claim C8. When the loop reaches the end of the input with a block still open, the events
  after the spawn of that block's child are reads and writes only: the write end is never
  closed and the child is never waited for. With no threshold \<^verbatim>\<open>main\<close> returns 0. Whatever
  \<^verbatim>\<open>waitpid\<close> would answer for that child, the run is the same: its outcome
  contributes nothing.
\<close>

theorem unterminated_block_is_abandoned:
  assumes "main_loop W ntimes stdin init_vars = (ev, Inr s)" and "0 \<le> f s"
  shows "(\<exists>pre env ws. ev = pre @ Spawn env # ws \<and> quiet ws)
       \<and> (ntimes = 0 \<longrightarrow> xarmour W ntimes stdin = (ev, Return 0))
       \<and> xarmour (W\<lparr>waitpid := (waitpid W)(index s := x)\<rparr>) ntimes stdin = xarmour W ntimes stdin"
proof (intro conjI impI)
  show "\<exists>pre env ws. ev = pre @ Spawn env # ws \<and> quiet ws"
    using main_loop_open_at_eof [OF assms(1) refl assms(2)] by (simp add: init_vars_def)
next
  assume "ntimes = 0"
  then show "xarmour W ntimes stdin = (ev, Return 0)"
    using assms(1) by (simp add: xarmour_def at_eof_def EXIT_SUCCESS_def)
next
  have "main_loop (W\<lparr>waitpid := (waitpid W)(index s := x)\<rparr>) ntimes stdin init_vars = (ev, Inr s)"
    by (rule main_loop_waitpid_cong [OF assms(1) refl]) simp_all
  then show "xarmour (W\<lparr>waitpid := (waitpid W)(index s := x)\<rparr>) ntimes stdin = xarmour W ntimes stdin"
    using assms(1) by (simp add: xarmour_def)
qed

text \<open>The theorem at an input that ends inside block A.\<close>

theorem unterminated_block_is_abandoned_witness:
  "main_loop calm 0 unterminated init_vars =
      ([Read ''before\<newline>'', Read ''-----BEGIN A-----\<newline>'',
        Spawn [(''XARMOUR_INDEX'', ''0''), (''XARMOUR_COUNT'', ''0''), (''XARMOUR_TIMES'', ''0''),
               (''XARMOUR_LABEL'', ''A'')],
        Write ''-----BEGIN A-----\<newline>'', Read ''abc\<newline>'', Write ''abc\<newline>''], Inr (in_block ''A''))
   \<and> 0 \<le> f (in_block ''A'')
   \<and> (\<exists>pre env ws.
         [Read ''before\<newline>'', Read ''-----BEGIN A-----\<newline>'',
        Spawn [(''XARMOUR_INDEX'', ''0''), (''XARMOUR_COUNT'', ''0''), (''XARMOUR_TIMES'', ''0''),
               (''XARMOUR_LABEL'', ''A'')],
        Write ''-----BEGIN A-----\<newline>'', Read ''abc\<newline>'', Write ''abc\<newline>''] = pre @ Spawn env # ws \<and> quiet ws)
   \<and> xarmour calm 0 unterminated =
      ([Read ''before\<newline>'', Read ''-----BEGIN A-----\<newline>'',
        Spawn [(''XARMOUR_INDEX'', ''0''), (''XARMOUR_COUNT'', ''0''), (''XARMOUR_TIMES'', ''0''),
               (''XARMOUR_LABEL'', ''A'')],
        Write ''-----BEGIN A-----\<newline>'', Read ''abc\<newline>'', Write ''abc\<newline>''], Return 0)
   \<and> xarmour (calm\<lparr>waitpid := (waitpid calm)(index (in_block ''A'') := (0, WaitErr))\<rparr>) 0 unterminated
       = xarmour calm 0 unterminated"
proof -
  have a: "main_loop calm 0 unterminated init_vars =
      ([Read ''before\<newline>'', Read ''-----BEGIN A-----\<newline>'',
        Spawn [(''XARMOUR_INDEX'', ''0''), (''XARMOUR_COUNT'', ''0''), (''XARMOUR_TIMES'', ''0''),
               (''XARMOUR_LABEL'', ''A'')],
        Write ''-----BEGIN A-----\<newline>'', Read ''abc\<newline>'', Write ''abc\<newline>''], Inr (in_block ''A''))"
    by code_simp
  have h: "0 \<le> f (in_block ''A'')"
    by (simp add: in_block_def)
  note t = unterminated_block_is_abandoned [OF a h, where x = "(0, WaitErr)"]
  show ?thesis
    by (intro conjI a h conjunct1 [OF t] mp [OF conjunct1 [OF conjunct2 [OF t]] refl]
        conjunct2 [OF conjunct2 [OF t]])
qed

subsection \<open>C9: lines longer than the buffer\<close>

text \<open>
  Claim C9, as amended. No input byte is dropped by the reader: the buffers the loop reads,
  put end to end, are the input up to the point where the process ended, and the whole
  input when the loop reached its end. Each buffer holds at least one and at most
  \<open>MAX_LINE - 1 = 1023\<close> bytes. The buffers read are those that successive calls of
  \<^verbatim>\<open>fgets\<close> cut from the input: all of them when the loop reached its end, the first
  of them otherwise, and at least one when the input is not empty. And \<^verbatim>\<open>fgets\<close> cuts
  in this way: when there is a newline among the first 1023 bytes, the buffer is the
  line up to and with its first newline; when there is none, the buffer is the first
  1023 bytes (all the bytes when there are fewer) and the bytes beyond stay in the
  stream, where the following calls cut them in the same way. So a line longer than
  1023 bytes is split: its first 1023 bytes are one buffer and the bytes beyond are read
  by the following iterations as further lines.
\<close>

theorem long_lines_are_split:
  assumes "main_loop W ntimes stdin s = (ev, r)"
  shows "(\<exists>rest. stdin = concat (reads ev) @ rest \<and> (\<not> isl r \<longrightarrow> rest = []))
       \<and> list_all (\<lambda>b. b \<noteq> [] \<and> length b \<le> MAX_LINE - 1) (reads ev)
       \<and> reads ev = take (length (reads ev)) (buffers stdin)
       \<and> (\<not> isl r \<longrightarrow> reads ev = buffers stdin)
       \<and> ((reads ev = []) = (stdin = []))
       \<and> MAX_LINE - 1 = 1023
       \<and> (inp \<noteq> [] \<and> newline \<notin> set (take 1023 inp) \<longrightarrow>
            fgets MAX_LINE inp = Some (take 1023 inp, drop 1023 inp)
            \<and> buffers inp = take 1023 inp # buffers (drop 1023 inp))
       \<and> (newline \<in> set (take 1023 inp) \<longrightarrow>
            fgets MAX_LINE inp =
              Some (takeWhile (\<lambda>c. c \<noteq> newline) inp @ [newline],
                    drop (Suc (length (takeWhile (\<lambda>c. c \<noteq> newline) inp))) inp)
            \<and> buffers inp =
                (takeWhile (\<lambda>c. c \<noteq> newline) inp @ [newline])
                # buffers (drop (Suc (length (takeWhile (\<lambda>c. c \<noteq> newline) inp))) inp))
       \<and> fgets MAX_LINE [] = None \<and> buffers [] = []"
proof (intro conjI impI)
  show "\<exists>rest. stdin = concat (reads ev) @ rest \<and> (\<not> isl r \<longrightarrow> rest = [])"
    using main_loop_reads [OF assms] .
  show "list_all (\<lambda>b. b \<noteq> [] \<and> length b \<le> MAX_LINE - 1) (reads ev)"
    using main_loop_reads_bounded [OF assms] .
  show "reads ev = take (length (reads ev)) (buffers stdin)"
    using main_loop_reads_buffers [OF assms] by blast
  show "(reads ev = []) = (stdin = [])"
    using main_loop_reads_buffers [OF assms] by blast
  show m: "MAX_LINE - 1 = 1023"
    by (simp add: MAX_LINE_def)
  show "fgets MAX_LINE [] = None"
    by (simp add: fgets_None)
  show "buffers [] = []"
    by (rule buffers_Nil)
next
  assume "\<not> isl r"
  then show "reads ev = buffers stdin"
    using main_loop_reads_buffers [OF assms] by blast
next
  assume a: "inp \<noteq> [] \<and> newline \<notin> set (take 1023 inp)"
  then have "fgets MAX_LINE inp = Some (take (MAX_LINE - 1) inp, drop (MAX_LINE - 1) inp)"
    using fgets_cut [of inp] by (simp add: MAX_LINE_def)
  then show c: "fgets MAX_LINE inp = Some (take 1023 inp, drop 1023 inp)"
    by (simp add: MAX_LINE_def)
  show "buffers inp = take 1023 inp # buffers (drop 1023 inp)"
    using c by (rule buffers_Some)
next
  assume a: "newline \<in> set (take 1023 inp)"
  then have "newline \<in> set (take (MAX_LINE - 1) inp)"
    by (simp add: MAX_LINE_def)
  then show l: "fgets MAX_LINE inp =
      Some (takeWhile (\<lambda>c. c \<noteq> newline) inp @ [newline],
            drop (Suc (length (takeWhile (\<lambda>c. c \<noteq> newline) inp))) inp)"
    by (rule fgets_line)
  show "buffers inp =
      (takeWhile (\<lambda>c. c \<noteq> newline) inp @ [newline])
      # buffers (drop (Suc (length (takeWhile (\<lambda>c. c \<noteq> newline) inp))) inp)"
    using l by (rule buffers_Some)
qed

text \<open>
  The theorem at a line of 1023 bytes \<^verbatim>\<open>x\<close> followed, with no newline between, by a
  block: the first buffer is the 1023 bytes, and the block that follows them on the line
  is read as the next lines. The second buffer is a line that fits.
\<close>

theorem long_lines_are_split_witness:
  "main_loop calm 0 long_line init_vars =
     ((Read (replicate 1023 CHR ''x'') # [Read ''-----BEGIN A-----\<newline>'',
       Spawn [(''XARMOUR_INDEX'', ''0''), (''XARMOUR_COUNT'', ''0''), (''XARMOUR_TIMES'', ''0''),
              (''XARMOUR_LABEL'', ''A'')],
       Write ''-----BEGIN A-----\<newline>'',
       Read ''-----END A-----\<newline>'', Write ''-----END A-----\<newline>'', Close,
       Wait (Reaped (Exited 0))]),
      Inr \<lparr>f = - 1, blabel = ''A'', index = 1, count = 1\<rparr>)
   \<and> (\<exists>rest. long_line = concat (reads (Read (replicate 1023 CHR ''x'') # [Read ''-----BEGIN A-----\<newline>'',
       Spawn [(''XARMOUR_INDEX'', ''0''), (''XARMOUR_COUNT'', ''0''), (''XARMOUR_TIMES'', ''0''),
              (''XARMOUR_LABEL'', ''A'')],
       Write ''-----BEGIN A-----\<newline>'',
       Read ''-----END A-----\<newline>'', Write ''-----END A-----\<newline>'', Close,
       Wait (Reaped (Exited 0))])) @ rest
         \<and> (\<not> isl (Inr \<lparr>f = - 1, blabel = ''A'', index = 1, count = 1\<rparr> :: ending + vars) \<longrightarrow> rest = []))
   \<and> list_all (\<lambda>b. b \<noteq> [] \<and> length b \<le> MAX_LINE - 1)
        (reads (Read (replicate 1023 CHR ''x'') # [Read ''-----BEGIN A-----\<newline>'',
       Spawn [(''XARMOUR_INDEX'', ''0''), (''XARMOUR_COUNT'', ''0''), (''XARMOUR_TIMES'', ''0''),
              (''XARMOUR_LABEL'', ''A'')],
       Write ''-----BEGIN A-----\<newline>'',
       Read ''-----END A-----\<newline>'', Write ''-----END A-----\<newline>'', Close,
       Wait (Reaped (Exited 0))]))
   \<and> reads (Read (replicate 1023 CHR ''x'') # [Read ''-----BEGIN A-----\<newline>'',
       Spawn [(''XARMOUR_INDEX'', ''0''), (''XARMOUR_COUNT'', ''0''), (''XARMOUR_TIMES'', ''0''),
              (''XARMOUR_LABEL'', ''A'')],
       Write ''-----BEGIN A-----\<newline>'',
       Read ''-----END A-----\<newline>'', Write ''-----END A-----\<newline>'', Close,
       Wait (Reaped (Exited 0))]) = buffers long_line
   \<and> long_line \<noteq> []
   \<and> newline \<notin> set (take 1023 long_line)
   \<and> fgets MAX_LINE long_line = Some (take 1023 long_line, drop 1023 long_line)
   \<and> buffers long_line = take 1023 long_line # buffers (drop 1023 long_line)
   \<and> take 1023 long_line = replicate 1023 CHR ''x''
   \<and> drop 1023 long_line = ''-----BEGIN A-----\<newline>-----END A-----\<newline>''
   \<and> newline \<in> set (take 1023 ''-----BEGIN A-----\<newline>-----END A-----\<newline>'')
   \<and> fgets MAX_LINE ''-----BEGIN A-----\<newline>-----END A-----\<newline>'' =
       Some (''-----BEGIN A-----\<newline>'', ''-----END A-----\<newline>'')"
proof -
  note t = long_lines_are_split [OF main_loop_long_line, where inp = long_line]
  note u = long_lines_are_split [OF main_loop_long_line,
      where inp = "''-----BEGIN A-----\<newline>-----END A-----\<newline>''"]
  have fin: "\<not> isl (Inr \<lparr>f = - 1, blabel = ''A'', index = 1, count = 1\<rparr> :: ending + vars)"
    by simp
  have h1: "long_line \<noteq> []"
    by (simp add: long_line_def)
  have tk: "take 1023 long_line = replicate 1023 CHR ''x''"
    by (simp add: long_line_def)
  have dr: "drop 1023 long_line = ''-----BEGIN A-----\<newline>-----END A-----\<newline>''"
    by (simp add: long_line_def)
  have h2: "newline \<notin> set (take 1023 long_line)"
    by (simp add: tk newline_def)
  have h3: "newline \<in> set (take 1023 ''-----BEGIN A-----\<newline>-----END A-----\<newline>'')"
    by (simp add: newline_def)
  have c: "fgets MAX_LINE long_line = Some (take 1023 long_line, drop 1023 long_line)
      \<and> buffers long_line = take 1023 long_line # buffers (drop 1023 long_line)"
    by (rule t [THEN conjunct2, THEN conjunct2, THEN conjunct2, THEN conjunct2, THEN conjunct2,
          THEN conjunct2, THEN conjunct1, THEN mp]) (intro conjI h1 h2)
  have l: "fgets MAX_LINE ''-----BEGIN A-----\<newline>-----END A-----\<newline>'' =
       Some (takeWhile (\<lambda>c. c \<noteq> newline) ''-----BEGIN A-----\<newline>-----END A-----\<newline>'' @ [newline],
             drop (Suc (length (takeWhile (\<lambda>c. c \<noteq> newline) ''-----BEGIN A-----\<newline>-----END A-----\<newline>'')))
               ''-----BEGIN A-----\<newline>-----END A-----\<newline>'')"
    by (rule u [THEN conjunct2, THEN conjunct2, THEN conjunct2, THEN conjunct2, THEN conjunct2,
          THEN conjunct2, THEN conjunct2, THEN conjunct1, THEN mp, OF h3, THEN conjunct1])
  have l': "fgets MAX_LINE ''-----BEGIN A-----\<newline>-----END A-----\<newline>'' =
       Some (''-----BEGIN A-----\<newline>'', ''-----END A-----\<newline>'')"
    using l by (simp add: newline_def)
  show ?thesis
    by (intro conjI main_loop_long_line t [THEN conjunct1] t [THEN conjunct2, THEN conjunct1]
        t [THEN conjunct2, THEN conjunct2, THEN conjunct2, THEN conjunct1, THEN mp, OF fin]
        h1 h2 c [THEN conjunct1] c [THEN conjunct2] tk dr h3 l')
qed

text \<open>
  Claim C9 as stated fails: the bytes beyond the first 1023 of the line are not discarded
  but read as the next line, and the BEGIN marker that starts there spawns a child.
\<close>

theorem long_line_counterexample:
  "xarmour calm 0 long_line =
     ((Read (replicate 1023 CHR ''x'') # [Read ''-----BEGIN A-----\<newline>'',
       Spawn [(''XARMOUR_INDEX'', ''0''), (''XARMOUR_COUNT'', ''0''), (''XARMOUR_TIMES'', ''0''),
              (''XARMOUR_LABEL'', ''A'')],
       Write ''-----BEGIN A-----\<newline>'',
       Read ''-----END A-----\<newline>'', Write ''-----END A-----\<newline>'', Close,
       Wait (Reaped (Exited 0))]), Return 0)"
  by (simp add: xarmour_def main_loop_long_line at_eof_def EXIT_SUCCESS_def)

subsection \<open>C10: what the marker matcher accepts\<close>




end
